theory Spec2Isabelle
  imports Complex_Main
begin

section \<open>Instance: orbits, edges, copying and loading (instance.cpp)\<close>

text \<open>
  An instance owns a vector of satellites (orbits) and a vector of edges. An edge holds two
  raw pointers into the orbit vector of its instance. Pointers are modelled as a storage
  block (the identity of a vector's element storage) and an index into it; the null pointer
  is what \<open>std::map::operator[]\<close> yields for a key it does not hold.

  The instance code stores and copies floating-point values but computes nothing with
  them, so the type of floats is a type parameter \<open>'f\<close> of this part of the model.
  Container sizes, loop counters and the section counter are natural numbers and integers
  without a bound: the model covers files and instances whose sizes fit the source's
  \<open>int\<close> counters.
\<close>

datatype sat_ptr = Null | Ptr nat nat

text \<open>
  Modelled from the spec: the declarations of \<open>StateVector\<close>, \<open>Satellite\<close> and
  \<open>Edge\<close> are not among the sources. A satellite keeps the state vector, the true
  anomaly at epoch, the gravitational parameter and the radius of the central mass it was
  constructed from; an edge keeps its two satellite pointers and the radius.
\<close>

record 'f state_vector =
  height_perigee :: 'f
  eccentricity :: 'f
  raan :: 'f
  argument_periapsis :: 'f
  inclination :: 'f
  rotation_speed :: 'f

record 'f satellite =
  sat_state :: "'f state_vector"
  sat_true_anomaly :: 'f
  sat_gravitational_parameter :: 'f
  sat_radius_central_mass :: 'f

definition Satellite :: "'f state_vector \<Rightarrow> 'f \<Rightarrow> 'f \<Rightarrow> 'f \<Rightarrow> 'f satellite" where
  "Satellite sv anomaly gp rcm =
     \<lparr>sat_state = sv, sat_true_anomaly = anomaly,
      sat_gravitational_parameter = gp, sat_radius_central_mass = rcm\<rparr>"

record 'f edge =
  getV1 :: sat_ptr
  getV2 :: sat_ptr
  getRadiusCentralMass :: 'f

definition Edge :: "sat_ptr \<Rightarrow> sat_ptr \<Rightarrow> 'f \<Rightarrow> 'f edge" where
  "Edge p1 p2 r = \<lparr>getV1 = p1, getV2 = p2, getRadiusCentralMass = r\<rparr>"

record 'f Instance =
  radius_central_mass :: 'f
  gravitational_parameter :: 'f
  orbits_block :: nat
  orbits :: "'f satellite list"
  edges :: "'f edge list"

text \<open>\<open>&v[i]\<close> for a vector stored in block \<open>b\<close>.\<close>

definition addr_of :: "nat \<Rightarrow> nat \<Rightarrow> sat_ptr" where
  "addr_of b i = Ptr b i"

subsection \<open>The copy constructor and copy assignment\<close>

text \<open>
  \<open>orbit_map\<close> is a \<open>std::map\<close> from old to new satellite addresses, filled by the
  loop \<open>for (int i = 0; i < orbits.size(); i++) orbit_map[&source.orbits[i]] = &orbits[i]\<close>.
\<close>

fun fill_orbit_map ::
  "nat \<Rightarrow> nat \<Rightarrow> nat list \<Rightarrow> (sat_ptr \<rightharpoonup> sat_ptr) \<Rightarrow> (sat_ptr \<rightharpoonup> sat_ptr)" where
  "fill_orbit_map src_block new_block [] m = m"
| "fill_orbit_map src_block new_block (i # ix) m =
     fill_orbit_map src_block new_block ix (m(addr_of src_block i \<mapsto> addr_of new_block i))"

text \<open>\<open>orbit_map[key]\<close> as an rvalue: the mapped pointer, or a null pointer for a new key.\<close>

definition map_index :: "(sat_ptr \<rightharpoonup> sat_ptr) \<Rightarrow> sat_ptr \<Rightarrow> sat_ptr" where
  "map_index m k = (case m k of None \<Rightarrow> Null | Some p \<Rightarrow> p)"

definition remap_edge :: "(sat_ptr \<rightharpoonup> sat_ptr) \<Rightarrow> 'f edge \<Rightarrow> 'f edge" where
  "remap_edge orbit_map e =
     (let new_v1 = map_index orbit_map (getV1 e);
          new_v2 = map_index orbit_map (getV2 e)
      in Edge new_v1 new_v2 (getRadiusCentralMass e))"

text \<open>
  \<open>Instance::Instance(const Instance& source)\<close>. The block \<open>new_block\<close> is the
  storage the allocator gives the new orbit vector.
\<close>

definition copy_construct :: "nat \<Rightarrow> 'f Instance \<Rightarrow> 'f Instance" where
  "copy_construct new_block source =
     (let new_orbits = orbits source;
          orbit_map = fill_orbit_map (orbits_block source) new_block
                        [0..<length new_orbits] Map.empty
      in \<lparr>radius_central_mass = radius_central_mass source,
          gravitational_parameter = gravitational_parameter source,
          orbits_block = new_block,
          orbits = new_orbits,
          edges = map (remap_edge orbit_map) (edges source)\<rparr>)"

text \<open>
  \<open>Instance::operator=\<close>. An object is a pair of its address and its value; the
  self-assignment test compares addresses. \<open>new_block\<close> is the storage of the target's
  orbit vector after \<open>orbits = source.orbits; orbits.shrink_to_fit()\<close>.
\<close>

definition copy_assign ::
  "nat \<Rightarrow> nat \<times> 'f Instance \<Rightarrow> nat \<times> 'f Instance \<Rightarrow> 'f Instance" where
  "copy_assign new_block this source =
     (if fst source = fst this then snd this
      else
        (let src = snd source;
             new_orbits = orbits src;
             orbit_map = fill_orbit_map (orbits_block src) new_block
                           [0..<length new_orbits] Map.empty
         in \<lparr>radius_central_mass = radius_central_mass src,
             gravitational_parameter = gravitational_parameter src,
             orbits_block = new_block,
             orbits = new_orbits,
             edges = [] @ map (remap_edge orbit_map) (edges src)\<rparr>))"

text \<open>
  The reference invariant of an instance: both pointers of every edge are addresses of
  elements of the instance's own orbit vector.
\<close>

definition own_ptr :: "'f Instance \<Rightarrow> sat_ptr \<Rightarrow> bool" where
  "own_ptr inst p = (case p of Null \<Rightarrow> False
                     | Ptr b i \<Rightarrow> b = orbits_block inst \<and> i < length (orbits inst))"

definition refs_ok :: "'f Instance \<Rightarrow> bool" where
  "refs_ok inst = list_all (\<lambda>e. own_ptr inst (getV1 e) \<and> own_ptr inst (getV2 e)) (edges inst)"

text \<open>The index of the orbit a pointer refers to.\<close>

fun ptr_index :: "sat_ptr \<Rightarrow> nat option" where
  "ptr_index Null = None"
| "ptr_index (Ptr b i) = Some i"

text \<open>
  What a copy must satisfy with respect to its source: as many orbits and edges, every
  edge of the copy points into the copy's own orbit vector and not into the source's, and
  the k-th edge connects the orbits at the same indices as the k-th edge of the source.
\<close>

definition is_rebound_copy :: "'f Instance \<Rightarrow> 'f Instance \<Rightarrow> bool" where
  "is_rebound_copy source c =
     (length (orbits c) = length (orbits source) \<and>
      length (edges c) = length (edges source) \<and>
      list_all (\<lambda>e. own_ptr c (getV1 e) \<and> own_ptr c (getV2 e) \<and>
                     \<not> own_ptr source (getV1 e) \<and> \<not> own_ptr source (getV2 e)) (edges c) \<and>
      map (\<lambda>e. (ptr_index (getV1 e), ptr_index (getV2 e))) (edges c) =
      map (\<lambda>e. (ptr_index (getV1 e), ptr_index (getV2 e))) (edges source))"

subsection \<open>The loading constructor\<close>

text \<open>
  \<open>std::stof\<close>, \<open>std::stoi\<close> and \<open>std::vector::at\<close> throw exceptions derived
  from \<open>std::exception\<close>. The two parsers belong to the standard library and are
  parameters of the model: \<open>stof\<close> yields a float or throws, \<open>stoi\<close> yields an
  \<open>int\<close> or throws.
\<close>

datatype std_exception = invalid_argument | out_of_range

text \<open>Sequencing of computations that may throw.\<close>

definition bind_exn :: "std_exception + 'a \<Rightarrow> ('a \<Rightarrow> std_exception + 'b) \<Rightarrow> std_exception + 'b" where
  "bind_exn r f = (case r of Inl e \<Rightarrow> Inl e | Inr v \<Rightarrow> f v)"

text \<open>
  \<open>std::getline(ss, value_cache, ',')\<close> on the string stream of one line. The stream is
  the text not yet read, or \<open>None\<close> once a read has met the end of the line; a read
  from a stream in that state fails and leaves \<open>value_cache\<close> as it was.
\<close>

fun getline_comma :: "string option \<times> string \<Rightarrow> string option \<times> string" where
  "getline_comma (None, value_cache) = (None, value_cache)"
| "getline_comma (Some cs, value_cache) =
     (if CHR '','' \<in> set cs
      then (Some (tl (dropWhile (\<lambda>c. c \<noteq> CHR '','') cs)), takeWhile (\<lambda>c. c \<noteq> CHR '','') cs)
      else (None, cs))"

text \<open>\<open>&orbits.at(index)\<close> with an \<open>int\<close> index, converted to the unsigned size type.\<close>

definition orbits_at :: "'f Instance \<Rightarrow> int \<Rightarrow> std_exception + sat_ptr" where
  "orbits_at inst index =
     (if 0 \<le> index \<and> nat index < length (orbits inst)
      then Inr (addr_of (orbits_block inst) (nat index))
      else Inl out_of_range)"

text \<open>
  Modelled from the spec: the enumeration of the reading modes is not among the sources;
  the sections of a file are the instance properties, the orbits and the edges, in this
  order, and \<open>mode++\<close> moves to the next one.
\<close>

definition READ_INIT :: int where "READ_INIT = 0"
definition READ_ORBIT :: int where "READ_ORBIT = 1"
definition READ_EDGE :: int where "READ_EDGE = 2"

text \<open>
  The body of the \<open>try\<close> block for one line, by mode. It yields the instance as the
  body leaves it and the exception that ended it, if any.
\<close>

definition read_init ::
  "(string \<Rightarrow> std_exception + 'f) \<Rightarrow> 'f Instance \<Rightarrow> string \<Rightarrow> 'f Instance \<times> std_exception option" where
  "read_init stof inst line_cache =
     (let s1 = getline_comma (Some line_cache, [])
      in case stof (snd s1) of
           Inl e \<Rightarrow> (inst, Some e)
         | Inr r \<Rightarrow>
             (let inst1 = inst\<lparr>radius_central_mass := r\<rparr>;
                  s2 = getline_comma s1
              in case stof (snd s2) of
                   Inl e \<Rightarrow> (inst1, Some e)
                 | Inr g \<Rightarrow> (inst1\<lparr>gravitational_parameter := g\<rparr>, None)))"

definition parse_orbit ::
  "(string \<Rightarrow> std_exception + 'f) \<Rightarrow> 'f Instance \<Rightarrow> string \<Rightarrow> std_exception + 'f satellite" where
  "parse_orbit stof inst line_cache =
     (let s0 = getline_comma (Some line_cache, []);
          s1 = getline_comma s0
      in bind_exn (stof (snd s1)) (\<lambda>hp.
         let s2 = getline_comma s1
      in bind_exn (stof (snd s2)) (\<lambda>ecc.
         let s3 = getline_comma s2
      in bind_exn (stof (snd s3)) (\<lambda>anomaly.
         let s4 = getline_comma s3
      in bind_exn (stof (snd s4)) (\<lambda>ra.
         let s5 = getline_comma s4
      in bind_exn (stof (snd s5)) (\<lambda>ap.
         let s6 = getline_comma s5
      in bind_exn (stof (snd s6)) (\<lambda>incl.
         let s7 = getline_comma s6
      in bind_exn (stof (snd s7)) (\<lambda>rs.
         Inr (Satellite
                \<lparr>height_perigee = hp, eccentricity = ecc, raan = ra,
                 argument_periapsis = ap, inclination = incl, rotation_speed = rs\<rparr>
                anomaly (gravitational_parameter inst) (radius_central_mass inst))))))))))"

definition read_orbit ::
  "(string \<Rightarrow> std_exception + 'f) \<Rightarrow> 'f Instance \<Rightarrow> string \<Rightarrow> 'f Instance \<times> std_exception option" where
  "read_orbit stof inst line_cache =
     (case parse_orbit stof inst line_cache of
        Inl e \<Rightarrow> (inst, Some e)
      | Inr sat \<Rightarrow> (inst\<lparr>orbits := orbits inst @ [sat]\<rparr>, None))"

definition parse_edge ::
  "(string \<Rightarrow> std_exception + int) \<Rightarrow> 'f Instance \<Rightarrow> string \<Rightarrow> std_exception + 'f edge" where
  "parse_edge stoi inst line_cache =
     (let s1 = getline_comma (Some line_cache, [])
      in bind_exn (stoi (snd s1)) (\<lambda>index_orbit_a.
         let s2 = getline_comma s1
      in bind_exn (stoi (snd s2)) (\<lambda>index_orbit_b.
         bind_exn (orbits_at inst index_orbit_a) (\<lambda>pa.
         bind_exn (orbits_at inst index_orbit_b) (\<lambda>pb.
         Inr (Edge pa pb (radius_central_mass inst)))))))"

definition read_edge ::
  "(string \<Rightarrow> std_exception + int) \<Rightarrow> 'f Instance \<Rightarrow> string \<Rightarrow> 'f Instance \<times> std_exception option" where
  "read_edge stoi inst line_cache =
     (case parse_edge stoi inst line_cache of
        Inl e \<Rightarrow> (inst, Some e)
      | Inr ed \<Rightarrow> (inst\<lparr>edges := edges inst @ [ed]\<rparr>, None))"

definition try_body ::
  "(string \<Rightarrow> std_exception + 'f) \<Rightarrow> (string \<Rightarrow> std_exception + int) \<Rightarrow>
   int \<Rightarrow> 'f Instance \<Rightarrow> string \<Rightarrow> 'f Instance \<times> std_exception option" where
  "try_body stof stoi mode inst line_cache =
     (if mode = READ_INIT then read_init stof inst line_cache
      else if mode = READ_ORBIT then read_orbit stof inst line_cache
      else if mode = READ_EDGE then read_edge stoi inst line_cache
      else (inst, None))"

text \<open>
  The state of the loading loop: the instance under construction, the reading mode and
  what has been written to standard output.
\<close>

record 'f loader =
  built :: "'f Instance"
  mode :: int
  cout :: "string list"

text \<open>One turn of the \<open>while (std::getline(is, line_cache))\<close> loop, handler included.\<close>

definition read_line ::
  "(string \<Rightarrow> std_exception + 'f) \<Rightarrow> (string \<Rightarrow> std_exception + int) \<Rightarrow>
   'f loader \<Rightarrow> string \<Rightarrow> 'f loader" where
  "read_line stof stoi st line_cache =
     (if line_cache = ''===END===''
      then st\<lparr>mode := mode st + 1\<rparr>
      else
        (case try_body stof stoi (mode st) (built st) line_cache of
           (inst', None) \<Rightarrow> st\<lparr>built := inst'\<rparr>
         | (inst', Some e) \<Rightarrow>
             st\<lparr>built := inst', cout := cout st @ [''Error while loading instance!'']\<rparr>))"

fun read_lines ::
  "(string \<Rightarrow> std_exception + 'f) \<Rightarrow> (string \<Rightarrow> std_exception + int) \<Rightarrow>
   'f loader \<Rightarrow> string list \<Rightarrow> 'f loader" where
  "read_lines stof stoi st [] = st"
| "read_lines stof stoi st (line_cache # rest) =
     read_lines stof stoi (read_line stof stoi st line_cache) rest"

text \<open>
  \<open>Instance::Instance(const std::string& file)\<close>: the file is its lines, or
  \<open>None\<close> when it cannot be opened. \<open>fresh\<close> is the instance as its members are
  before the constructor's body runs.
\<close>

definition load_instance ::
  "(string \<Rightarrow> std_exception + 'f) \<Rightarrow> (string \<Rightarrow> std_exception + int) \<Rightarrow>
   'f Instance \<Rightarrow> string list option \<Rightarrow> 'f loader" where
  "load_instance stof stoi fresh file =
     (case file of
        None \<Rightarrow> \<lparr>built = fresh, mode = READ_INIT, cout = [''File could not be opened!'']\<rparr>
      | Some ls \<Rightarrow> read_lines stof stoi \<lparr>built = fresh, mode = READ_INIT, cout = []\<rparr> ls)"


section \<open>Solver: visibility cache and next-opportunity queries (solver.cpp)\<close>

text \<open>
  A finite \<open>float\<close> is modelled as a real number and \<open>INFINITY\<close> is a
  value of its own. Where a variable of the source can hold \<open>INFINITY\<close> its type
  is \<open>flt\<close>, otherwise \<open>real\<close>. Arithmetic on finite floats is exact
  real arithmetic, except where a result depends on the rounding: there (in
  \<open>nextVisibility_float\<close> and in the sampling loops of \<open>createCache\<close>)
  the rounding of each operation is written out as a function \<open>rnd\<close>, which is
  \<open>binary32\<close> on an IEEE machine. Overflow to infinity and the sign of zero are
  outside this model, and so is NaN but for the one case described with
  \<open>sphere_test\<close>.
\<close>

datatype flt = Fin real | PInf

fun flt_less :: "flt \<Rightarrow> flt \<Rightarrow> bool" where
  "flt_less (Fin a) (Fin b) = (a < b)"
| "flt_less (Fin a) PInf = True"
| "flt_less PInf b = False"

fun flt_le :: "flt \<Rightarrow> flt \<Rightarrow> bool" where
  "flt_le (Fin a) (Fin b) = (a \<le> b)"
| "flt_le a PInf = True"
| "flt_le PInf (Fin b) = False"

fun flt_add :: "flt \<Rightarrow> flt \<Rightarrow> flt" where
  "flt_add (Fin a) (Fin b) = Fin (a + b)"
| "flt_add (Fin a) PInf = PInf"
| "flt_add PInf b = PInf"

text \<open>\<open>std::max(a, b)\<close> is \<open>(a < b) ? b : a\<close>.\<close>

definition flt_max :: "flt \<Rightarrow> flt \<Rightarrow> flt" where
  "flt_max a b = (if flt_less a b then b else a)"

text \<open>\<open>static_cast<float>(M_PI)\<close> is the float nearest to pi, 13176795 / 2^22.\<close>

definition M_PI_float :: real where
  "M_PI_float = 13176795 / 4194304"

text \<open>\<open>static_cast<float>(M_PI) / speed\<close>: a positive number divided by zero is \<open>INFINITY\<close>.\<close>

definition pi_over :: "real \<Rightarrow> flt" where
  "pi_over speed = (if speed = 0 then PInf else Fin (M_PI_float / speed))"

text \<open>
  Rounding toward zero, and \<open>fmod\<close>: the remainder has the sign of the dividend. For a
  zero divisor the source yields NaN; the solver divides by the period of a link only, and
  \<open>nextVisibility\<close> ends in a fault for a period of 0 before the remainder is used.
\<close>

definition trunc :: "real \<Rightarrow> int" where
  "trunc x = (if 0 \<le> x then \<lfloor>x\<rfloor> else \<lceil>x\<rceil>)"

definition fmodf :: "real \<Rightarrow> real \<Rightarrow> real" where
  "fmodf x y = x - of_int (trunc (x / y)) * y"

text \<open>
  What the model cannot follow is a fault: the conversion \<open>(int)(t0 / period)\<close> of a
  quotient that is not finite or whose integral part does not fit a 32-bit \<open>int\<close> has
  undefined behaviour, and arithmetic on the sentinel of an empty timeline is not
  specified.
\<close>

datatype fault = int_cast_out_of_range | sentinel_time

definition int_of_quotient :: "real \<Rightarrow> real \<Rightarrow> int option" where
  "int_of_quotient x y =
     (if y = 0 then None
      else if - 2147483649 < x / y \<and> x / y < 2147483648 then Some (trunc (x / y))
      else None)"

subsection \<open>Single-precision rounding\<close>

text \<open>
  The result of an arithmetic operation on floats is the exact result rounded to the nearest
  float, a tie going to the float with the even significand. \<open>round_half_even\<close>
  rounds a real number to an integer in that way, \<open>float_exponent x\<close> is the
  exponent of the binade of \<open>x\<close> (at least -126, the exponent of the subnormal
  numbers), and \<open>binary32\<close> rounds to 24 significant bits. Overflow to
  \<open>INFINITY\<close> is not part of it: \<open>binary32\<close> describes the rounding
  of results below \<open>2^128\<close> in magnitude.
\<close>

definition round_half_even :: "real \<Rightarrow> int" where
  "round_half_even x =
     (let f = \<lfloor>x\<rfloor>
      in if x - of_int f < 1 / 2 then f
         else if 1 / 2 < x - of_int f then f + 1
         else if even f then f else f + 1)"

definition float_exponent :: "real \<Rightarrow> int" where
  "float_exponent x = max \<lfloor>log 2 \<bar>x\<bar>\<rfloor> (- 126)"

definition binary32 :: "real \<Rightarrow> real" where
  "binary32 x =
     (if x = 0 then 0
      else of_int (round_half_even (x / 2 powi (float_exponent x - 23)))
             * 2 powi (float_exponent x - 23))"

text \<open>The conversion \<open>(int)x\<close> of a finite float.\<close>

definition int_cast :: "real \<Rightarrow> int option" where
  "int_cast x = (if - 2147483649 < x \<and> x < 2147483648 then Some (trunc x) else None)"

subsection \<open>Timelines\<close>

record timeline_event =
  t_begin :: real
  t_end :: real

type_synonym timeline = "timeline_event list"

text \<open>
  Modelled from the spec: the class \<open>Timeline\<close> is not among the sources. A timeline
  is an ordered set of intervals \<open>[t_begin, t_end)\<close>, kept sorted by start time.
\<close>

fun timeline_insert :: "timeline_event \<Rightarrow> timeline \<Rightarrow> timeline" where
  "timeline_insert slot [] = [slot]"
| "timeline_insert slot (x # xs) =
     (if t_begin slot < t_begin x then slot # x # xs else x # timeline_insert slot xs)"

text \<open>
  Modelled from the spec: \<open>nextTimeWithEvent(t, wantVisible)\<close> returns the smallest time
  at or after \<open>t\<close> at which the requested state begins or holds, wrapping around to the
  first interval when there is none at or after \<open>t\<close>, and a sentinel (\<open>None\<close>) when
  the timeline is empty. With \<open>wantVisible\<close> the requested state is that of an
  interval, without it that of a gap.
\<close>

definition nextTimeWithEvent :: "timeline \<Rightarrow> real \<Rightarrow> bool \<Rightarrow> real option" where
  "nextTimeWithEvent tline t wantVisible =
     (case tline of
        [] \<Rightarrow> None
      | first # rest \<Rightarrow>
          if wantVisible
          then (case find (\<lambda>e. t < t_end e \<or> t \<le> t_begin e) tline of
                  Some e \<Rightarrow> Some (max t (t_begin e))
                | None \<Rightarrow> Some (t_begin first))
          else (case find (\<lambda>e. t_begin e \<le> t \<and> t < t_end e) tline of
                  Some e \<Rightarrow> Some (t_end e)
                | None \<Rightarrow> Some t))"

subsection \<open>Links and the solver's state\<close>

type_synonym vec3 = "real \<times> real \<times> real"

text \<open>
  Modelled from the spec: the class \<open>InterSatelliteLink\<close> is not among the sources. The
  model of a link holds what the solver asks of it: its address (the key of the solver's
  cache), the addresses, rotation speeds and positions of its two satellites, the radius
  of the central mass it was built with (\<open>getRadiusCentralMass\<close> of
  instance.cpp), its period, and the predicates \<open>isBlocked\<close> and
  \<open>canAlign\<close>. The orientation of a satellite is a value of a type \<open>'o\<close>.
\<close>

record 'o link =
  link_addr :: nat
  v1_addr :: nat
  v2_addr :: nat
  v1_rotation_speed :: real
  v2_rotation_speed :: real
  v1_position :: "real \<Rightarrow> vec3"
  v2_position :: "real \<Rightarrow> vec3"
  link_radius :: real
  getPeriod :: real
  isBlocked :: "real \<Rightarrow> bool"
  canAlign :: "'o \<Rightarrow> 'o \<Rightarrow> real \<Rightarrow> bool"

text \<open>
  The members of \<open>Solver\<close>: the edges of its instance, the step of the time sampling,
  the orientation of each satellite and the visibility cache of each edge, both keyed by
  address. \<open>default_orientation\<close> is the value-initialised orientation that
  \<open>operator[]\<close> stores for a new key.
\<close>

record 'o solver =
  instance_edges :: "'o link list"
  step_size :: real
  default_orientation :: 'o
  satellite_orientation :: "nat \<rightharpoonup> 'o"
  edge_time_slots :: "nat \<rightharpoonup> timeline"

text \<open>\<open>edge_time_slots[key]\<close> and \<open>satellite_orientation[key]\<close>: a new key is stored
  with a default value.\<close>

definition slots_index :: "'o solver \<Rightarrow> nat \<Rightarrow> timeline \<times> 'o solver" where
  "slots_index s k =
     (case edge_time_slots s k of
        None \<Rightarrow> ([], s\<lparr>edge_time_slots := (edge_time_slots s)(k \<mapsto> [])\<rparr>)
      | Some tline \<Rightarrow> (tline, s))"

definition orientation_index :: "'o solver \<Rightarrow> nat \<Rightarrow> 'o \<times> 'o solver" where
  "orientation_index s k =
     (case satellite_orientation s k of
        None \<Rightarrow> (default_orientation s,
                 s\<lparr>satellite_orientation := (satellite_orientation s)(k \<mapsto> default_orientation s)\<rparr>)
      | Some ori \<Rightarrow> (ori, s))"

subsection \<open>nextVisibility and lowerBound\<close>

definition nextVisibility :: "'o solver \<Rightarrow> 'o link \<Rightarrow> real \<Rightarrow> fault + (flt \<times> 'o solver)" where
  "nextVisibility s edge t0 =
     (let (tline, s1) = slots_index s (link_addr edge)
      in if length tline = 0 then Inr (PInf, s1)
         else
           (let t = fmodf t0 (getPeriod edge)
            in case int_of_quotient t0 (getPeriod edge) of
                 None \<Rightarrow> Inl int_cast_out_of_range
               | Some k \<Rightarrow>
                   (let n_periods = getPeriod edge * of_int k
                    in case nextTimeWithEvent tline t True of
                         None \<Rightarrow> Inl sentinel_time
                       | Some t_next \<Rightarrow>
                           (let n_periods' = (if t_next < t then n_periods + getPeriod edge
                                              else n_periods)
                            in Inr (Fin (t_next + n_periods'), s1)))))"

fun lowerBound_loop ::
  "'o solver \<Rightarrow> 'o link list \<Rightarrow> flt \<Rightarrow> fault + (flt \<times> 'o solver)" where
  "lowerBound_loop s [] lower_bound = Inr (lower_bound, s)"
| "lowerBound_loop s (e # es) lower_bound =
     (case nextVisibility s e 0 of
        Inl f \<Rightarrow> Inl f
      | Inr (t, s1) \<Rightarrow>
          lowerBound_loop s1 es
            (if flt_less lower_bound t \<and> flt_less t PInf then t else lower_bound))"

definition lowerBound :: "'o solver \<Rightarrow> fault + (flt \<times> 'o solver)" where
  "lowerBound s = lowerBound_loop s (instance_edges s) (Fin 0)"

text \<open>
  \<open>nextVisibility\<close> with the rounding of its floating-point operations written
  out: \<open>rnd\<close> is the rounding of an exact result to a float
  (\<open>binary32\<close> on an IEEE machine). \<open>std::fmod\<close> is exact; the
  quotient \<open>t0 / period\<close>, the conversion of the \<open>int\<close> to
  \<open>float\<close>, the product and the two sums are rounded. With the identity for
  \<open>rnd\<close> this is \<open>nextVisibility\<close> above.
\<close>

definition nextVisibility_float ::
  "(real \<Rightarrow> real) \<Rightarrow> 'o solver \<Rightarrow> 'o link \<Rightarrow> real \<Rightarrow> fault + (flt \<times> 'o solver)" where
  "nextVisibility_float rnd s edge t0 =
     (let (tline, s1) = slots_index s (link_addr edge)
      in if length tline = 0 then Inr (PInf, s1)
         else
           (let t = fmodf t0 (getPeriod edge)
            in case (if getPeriod edge = 0 then None
                     else int_cast (rnd (t0 / getPeriod edge))) of
                 None \<Rightarrow> Inl int_cast_out_of_range
               | Some k \<Rightarrow>
                   (let n_periods = rnd (getPeriod edge * rnd (of_int k))
                    in case nextTimeWithEvent tline t True of
                         None \<Rightarrow> Inl sentinel_time
                       | Some t_next \<Rightarrow>
                           (let n_periods' = (if t_next < t then rnd (n_periods + getPeriod edge)
                                              else n_periods)
                            in Inr (Fin (rnd (t_next + n_periods')), s1)))))"

subsection \<open>nextCommunication\<close>

text \<open>
  The body of \<open>if (edge.isBlocked(t))\<close> in the search loop: \<open>search\<close> is the result
  of \<open>edge_time_slots.find(&edge)\<close>. It yields the new value of \<open>t\<close>.
\<close>

definition skip_blocked :: "timeline option \<Rightarrow> 'o link \<Rightarrow> real \<Rightarrow> fault + real" where
  "skip_blocked search edge t =
     (if isBlocked edge t
      then
        (let t_relative = fmodf t (getPeriod edge)
         in case (case search of None \<Rightarrow> Some 0
                  | Some tline \<Rightarrow> nextTimeWithEvent tline t_relative True) of
              None \<Rightarrow> Inl sentinel_time
            | Some t_next \<Rightarrow>
                if t_next < t_relative
                then Inr (t + (t_next + getPeriod edge - t_relative))
                else Inr (t + (t_next - t_relative)))
      else Inr t)"

text \<open>
  The loop \<open>for (float t = t_visible; t <= time_0 + t_max; t += step_size)\<close>, with
  \<open>bound\<close> for \<open>time_0 + t_max\<close>. The solver's maps do not change while the loop runs,
  so the result of \<open>find\<close> is the same in every turn and is an argument. The loop may
  run forever: \<open>None\<close> is not returning.
\<close>

partial_function (option) search_loop ::
  "real \<Rightarrow> timeline option \<Rightarrow> 'o link \<Rightarrow> 'o \<Rightarrow> 'o \<Rightarrow> flt \<Rightarrow> real \<Rightarrow> (fault + flt) option" where
  "search_loop step search edge sat1 sat2 bound t =
     (if flt_le (Fin t) bound
      then
        (case skip_blocked search edge t of
           Inl f \<Rightarrow> Some (Inl f)
         | Inr t' \<Rightarrow>
             if canAlign edge sat1 sat2 t' \<and> \<not> isBlocked edge t'
             then Some (Inr (Fin t'))
             else search_loop step search edge sat1 sat2 bound (t' + step))
      else Some (Inr PInf))"

definition nextCommunication ::
  "'o solver \<Rightarrow> 'o link \<Rightarrow> real \<Rightarrow> (fault + (flt \<times> 'o solver)) option" where
  "nextCommunication s edge time_0 =
     (case nextVisibility s edge time_0 of
        Inl f \<Rightarrow> Some (Inl f)
      | Inr (PInf, s1) \<Rightarrow> Some (Inr (PInf, s1))
      | Inr (Fin t_visible, s1) \<Rightarrow>
          (let (sat1, s2) = orientation_index s1 (v1_addr edge);
               (sat2, s3) = orientation_index s2 (v2_addr edge)
           in if canAlign edge sat1 sat2 t_visible then Some (Inr (Fin t_visible, s3))
              else
                (let t_max = flt_add (flt_max (pi_over (v1_rotation_speed edge))
                                              (pi_over (v2_rotation_speed edge)))
                                     (Fin (getPeriod edge))
                 in map_option (map_sum id (\<lambda>t. (t, s3)))
                      (search_loop (step_size s3) (edge_time_slots s3 (link_addr edge))
                         edge sat1 sat2 (flt_add (Fin time_0) t_max) t_visible))))"

subsection \<open>Building the cache\<close>

text \<open>
  The sampling loops of \<open>createCache\<close> step a \<open>float\<close> by
  \<open>step_size\<close>, and whether they end depends on the rounding of these sums. They
  are therefore modelled with the rounding written out: \<open>rnd\<close> is the rounding of
  an exact result to a float (\<open>binary32\<close> on an IEEE machine), applied to
  \<open>t0 + period\<close>, \<open>t + step_size\<close> and \<open>t - step_size\<close>.
  A loop may run forever: \<open>None\<close> is not returning.
\<close>

partial_function (option) findNextVisiblity_loop ::
  "(real \<Rightarrow> real) \<Rightarrow> real \<Rightarrow> 'o link \<Rightarrow> real \<Rightarrow> real \<Rightarrow> flt option" where
  "findNextVisiblity_loop rnd step edge t0 t =
     (if t \<le> rnd (t0 + getPeriod edge)
      then (if \<not> isBlocked edge t then Some (Fin t)
            else findNextVisiblity_loop rnd step edge t0 (rnd (t + step)))
      else Some PInf)"

definition findNextVisiblity ::
  "(real \<Rightarrow> real) \<Rightarrow> 'o solver \<Rightarrow> 'o link \<Rightarrow> real \<Rightarrow> flt option" where
  "findNextVisiblity rnd s edge t0 = findNextVisiblity_loop rnd (step_size s) edge t0 t0"

partial_function (option) findLastVisible_loop ::
  "(real \<Rightarrow> real) \<Rightarrow> real \<Rightarrow> 'o link \<Rightarrow> real \<Rightarrow> real \<Rightarrow> flt option" where
  "findLastVisible_loop rnd step edge t0 t =
     (if t \<le> rnd (t0 + getPeriod edge)
      then (if isBlocked edge t then Some (Fin (rnd (t - step)))
            else findLastVisible_loop rnd step edge t0 (rnd (t + step)))
      else Some PInf)"

definition findLastVisible ::
  "(real \<Rightarrow> real) \<Rightarrow> 'o solver \<Rightarrow> 'o link \<Rightarrow> real \<Rightarrow> flt option" where
  "findLastVisible rnd s edge t0 = findLastVisible_loop rnd (step_size s) edge t0 t0"

text \<open>\<open>edge_time_slots[&edge].insert(slot)\<close>.\<close>

definition slots_insert :: "'o solver \<Rightarrow> nat \<Rightarrow> timeline_event \<Rightarrow> 'o solver" where
  "slots_insert s k slot =
     (let (tline, s1) = slots_index s k
      in s1\<lparr>edge_time_slots := (edge_time_slots s1)(k \<mapsto> timeline_insert slot tline)\<rparr>)"

text \<open>The inner loop of \<open>createCache\<close> for one edge, from time \<open>t\<close> on.\<close>

partial_function (option) createCache_edge ::
  "(real \<Rightarrow> real) \<Rightarrow> 'o solver \<Rightarrow> 'o link \<Rightarrow> real \<Rightarrow> 'o solver option" where
  "createCache_edge rnd s edge t =
     (if t < getPeriod edge
      then
        Option.bind (findNextVisiblity rnd s edge t) (\<lambda>t_next.
          case t_next of
            PInf \<Rightarrow> Some s
          | Fin tn \<Rightarrow>
              if tn \<ge> getPeriod edge then Some s
              else
                Option.bind (findLastVisible rnd s edge tn) (\<lambda>t_end0.
                  let t_end1 = (case t_end0 of
                                  PInf \<Rightarrow> getPeriod edge
                                | Fin te \<Rightarrow> if te \<ge> getPeriod edge then getPeriod edge else te);
                      slot = \<lparr>t_begin = tn, t_end = t_end1\<rparr>;
                      s1 = slots_insert s (link_addr edge) slot
                  in createCache_edge rnd s1 edge (rnd (t_end slot + step_size s1))))
      else Some s)"

fun createCache_edges ::
  "(real \<Rightarrow> real) \<Rightarrow> 'o solver \<Rightarrow> 'o link list \<Rightarrow> 'o solver option" where
  "createCache_edges rnd s [] = Some s"
| "createCache_edges rnd s (edge # es) =
     Option.bind (createCache_edge rnd s edge 0) (\<lambda>s1. createCache_edges rnd s1 es)"

definition createCache :: "(real \<Rightarrow> real) \<Rightarrow> 'o solver \<Rightarrow> 'o solver option" where
  "createCache rnd s = createCache_edges rnd s (instance_edges s)"

subsection \<open>The sphere intersection test\<close>

definition vsub :: "vec3 \<Rightarrow> vec3 \<Rightarrow> vec3" where
  "vsub u v = (case u of (ux, uy, uz) \<Rightarrow> case v of (vx, vy, vz) \<Rightarrow> (ux - vx, uy - vy, uz - vz))"

definition dot :: "vec3 \<Rightarrow> vec3 \<Rightarrow> real" where
  "dot u v = (case u of (ux, uy, uz) \<Rightarrow> case v of (vx, vy, vz) \<Rightarrow> ux * vx + uy * vy + uz * vz)"

definition vlength :: "vec3 \<Rightarrow> real" where
  "vlength v = sqrt (dot v v)"

text \<open>\<open>glm::normalize(v)\<close> is \<open>v * inversesqrt(dot(v, v))\<close>.\<close>

definition normalize :: "vec3 \<Rightarrow> vec3" where
  "normalize v = (case v of (x, y, z) \<Rightarrow>
     (x * (1 / sqrt (dot v v)), y * (1 / sqrt (dot v v)), z * (1 / sqrt (dot v v))))"

definition radius_earth :: real where
  "radius_earth = 6378"

text \<open>
  The test on the two positions \<open>sat1\<close> and \<open>sat2\<close>. For coincident
  positions \<open>glm::normalize\<close> multiplies zero by \<open>inversesqrt(0)\<close>, which
  is infinite: the components of \<open>direction\<close> are NaN, and so are \<open>a\<close>,
  \<open>discr\<close>, \<open>d1\<close> and \<open>d2\<close>. Every comparison with NaN is false,
  so none of the three tests returns and the result is \<open>true\<close>; this is the
  first branch of the model, which has no NaN. Elsewhere the arithmetic is exact.
\<close>

definition sphere_test :: "vec3 \<Rightarrow> vec3 \<Rightarrow> bool" where
  "sphere_test sat1 sat2 =
     (if vsub sat2 sat1 = (0, 0, 0) then True
      else
      let direction = normalize (vsub sat2 sat1);
          sphere_center = (0, 0, 0);
          distance_to_center = vsub sat1 sphere_center;
          a = dot direction distance_to_center;
          discr = a * a - (dot distance_to_center distance_to_center
                            - radius_earth * radius_earth)
      in if discr \<le> 0 then False
         else
           (let d1 = - a + sqrt discr;
                d2 = - a - sqrt discr
            in if d1 < 0 \<and> d2 < 0 then False
               else
                 (let dist_between_sat = vlength (vsub sat1 sat2)
                  in if d1 \<ge> dist_between_sat \<and> d2 \<ge> dist_between_sat then False
                     else True)))"

definition sphereIntersection :: "'o link \<Rightarrow> real \<Rightarrow> bool" where
  "sphereIntersection edge time = sphere_test (v1_position edge time) (v2_position edge time)"

section \<open>Notions used in the statements\<close>

text \<open>The cache of an edge as the queries see it: a key the map does not hold counts as an
  empty timeline.\<close>

definition slots_of :: "'o solver \<Rightarrow> nat \<Rightarrow> timeline" where
  "slots_of s k = (case edge_time_slots s k of None \<Rightarrow> [] | Some tline \<Rightarrow> tline)"

text \<open>The value \<open>nextVisibility\<close> computes from the timeline, the period and the time.\<close>

definition visibility_time :: "timeline \<Rightarrow> real \<Rightarrow> real \<Rightarrow> fault + flt" where
  "visibility_time tline period t0 =
     (if tline = [] then Inr PInf
      else case int_of_quotient t0 period of
             None \<Rightarrow> Inl int_cast_out_of_range
           | Some k \<Rightarrow>
               (case nextTimeWithEvent tline (fmodf t0 period) True of
                  None \<Rightarrow> Inl sentinel_time
                | Some t_next \<Rightarrow>
                    Inr (Fin (t_next + (if t_next < fmodf t0 period
                                        then period * of_int k + period
                                        else period * of_int k)))))"


definition first_visibility :: "'o solver \<Rightarrow> 'o link \<Rightarrow> fault + flt" where
  "first_visibility s e = visibility_time (slots_of s (link_addr e)) (getPeriod e) 0"

text \<open>The update of \<open>lower_bound\<close> in one turn of the loop of \<open>lowerBound\<close>.\<close>

definition raise_bound :: "flt \<Rightarrow> flt \<Rightarrow> flt" where
  "raise_bound lower_bound t = (if flt_less lower_bound t \<and> flt_less t PInf then t else lower_bound)"

text \<open>The finite first-visibility times \<open>nextVisibility(e, 0)\<close> of the edges of the instance.\<close>

definition first_visibility_times :: "'o solver \<Rightarrow> real list" where
  "first_visibility_times s =
     List.map_filter (\<lambda>e. case nextVisibility s e 0 of Inr (Fin x, s') \<Rightarrow> Some x | _ \<Rightarrow> None)
       (instance_edges s)"

text \<open>The lower bound in the words of the specification: the minimum, over all links, of
  the strictly positive first-visibility times.\<close>

definition lowerBound_claimed :: "'o solver \<Rightarrow> real" where
  "lowerBound_claimed s = Min (set (filter (\<lambda>x. 0 < x) (first_visibility_times s)))"

subsection \<open>The search loop\<close>

text \<open>The cached intervals of a link begin at non-negative times (they lie within one
  period).\<close>

definition cache_nonneg :: "timeline option \<Rightarrow> bool" where
  "cache_nonneg search = (case search of None \<Rightarrow> True | Some tline \<Rightarrow> list_all (\<lambda>ev. 0 \<le> t_begin ev) tline)"


subsection \<open>What the queries read of the solver\<close>

text \<open>The orientation of a satellite as the queries see it: a key the map does not hold
  counts as the default orientation.\<close>

definition orientation_of :: "'o solver \<Rightarrow> nat \<Rightarrow> 'o" where
  "orientation_of s k =
     (case satellite_orientation s k of None \<Rightarrow> default_orientation s | Some ori \<Rightarrow> ori)"

text \<open>Two solver states that no query can tell apart: the same edges, step and default
  orientation, and for every key the same cache and the same orientation as read by
  \<open>slots_of\<close> and \<open>orientation_of\<close>.\<close>

definition same_view :: "'o solver \<Rightarrow> 'o solver \<Rightarrow> bool" where
  "same_view s s' =
     (instance_edges s' = instance_edges s \<and> step_size s' = step_size s \<and>
      default_orientation s' = default_orientation s \<and>
      (\<forall>k. slots_of s' k = slots_of s k) \<and>
      (\<forall>k. orientation_of s' k = orientation_of s k))"

text \<open>\<open>time_0 + t_max\<close>, the value \<open>nextCommunication\<close> computes from cache and
  orientations, and the state it leaves behind.\<close>

definition search_bound :: "'o link \<Rightarrow> real \<Rightarrow> flt" where
  "search_bound edge time_0 =
     flt_add (Fin time_0)
       (flt_add (flt_max (pi_over (v1_rotation_speed edge)) (pi_over (v2_rotation_speed edge)))
                (Fin (getPeriod edge)))"

definition communication_time ::
  "real \<Rightarrow> timeline \<Rightarrow> 'o \<Rightarrow> 'o \<Rightarrow> 'o link \<Rightarrow> real \<Rightarrow> (fault + flt) option" where
  "communication_time step tline sat1 sat2 edge time_0 =
     (case visibility_time tline (getPeriod edge) time_0 of
        Inl f \<Rightarrow> Some (Inl f)
      | Inr PInf \<Rightarrow> Some (Inr PInf)
      | Inr (Fin t_visible) \<Rightarrow>
          if canAlign edge sat1 sat2 t_visible then Some (Inr (Fin t_visible))
          else search_loop step (Some tline) edge sat1 sat2 (search_bound edge time_0) t_visible)"

definition touched :: "'o solver \<Rightarrow> 'o link \<Rightarrow> 'o solver" where
  "touched s e =
     snd (orientation_index (snd (orientation_index (snd (slots_index s (link_addr e)))
       (v1_addr e))) (v2_addr e))"

subsection \<open>The ray from one satellite towards the other\<close>

text \<open>
  The point at parameter \<open>x\<close> on the ray from \<open>sat1\<close> in the direction of
  \<open>sat2\<close>, and the parameters at which the ray meets the surface of the sphere of a
  given radius about the origin: the real roots of the ray-sphere quadratic.
  \<open>blocked_claimed\<close> is the blocking test in the words of the specification, for
  the sphere of the given radius: a real root exists, not all roots are behind the origin,
  and not all are at or beyond the distance of the satellites. \<open>ray_a\<close> and
  \<open>ray_discr\<close> are \<open>a\<close> and \<open>discr\<close> of the source for that radius.
\<close>

definition ray_point :: "vec3 \<Rightarrow> vec3 \<Rightarrow> real \<Rightarrow> vec3" where
  "ray_point sat1 sat2 x =
     (case sat1 of (px, py, pz) \<Rightarrow>
        case normalize (vsub sat2 sat1) of (dx, dy, dz) \<Rightarrow>
          (px + x * dx, py + x * dy, pz + x * dz))"

definition hits_sphere_at :: "real \<Rightarrow> vec3 \<Rightarrow> vec3 \<Rightarrow> real \<Rightarrow> bool" where
  "hits_sphere_at radius sat1 sat2 x =
     (dot (ray_point sat1 sat2 x) (ray_point sat1 sat2 x) = radius * radius)"

definition blocked_claimed :: "real \<Rightarrow> vec3 \<Rightarrow> vec3 \<Rightarrow> bool" where
  "blocked_claimed radius sat1 sat2 =
     ((\<exists>x. hits_sphere_at radius sat1 sat2 x) \<and>
      \<not> (\<forall>x. hits_sphere_at radius sat1 sat2 x \<longrightarrow> x < 0) \<and>
      \<not> (\<forall>x. hits_sphere_at radius sat1 sat2 x \<longrightarrow> vlength (vsub sat1 sat2) \<le> x))"

definition ray_a :: "vec3 \<Rightarrow> vec3 \<Rightarrow> real" where
  "ray_a sat1 sat2 = dot (normalize (vsub sat2 sat1)) (vsub sat1 (0, 0, 0))"

definition ray_discr :: "real \<Rightarrow> vec3 \<Rightarrow> vec3 \<Rightarrow> real" where
  "ray_discr radius sat1 sat2 =
     ray_a sat1 sat2 * ray_a sat1 sat2
       - (dot (vsub sat1 (0, 0, 0)) (vsub sat1 (0, 0, 0)) - radius * radius)"

subsection \<open>The visibility cache\<close>

text \<open>The samples \<open>t, t + step, t + 2 step, ...\<close> up to a bound: the first one that satisfies
  a predicate, or none; \<open>sample_result\<close> is what a sampling loop returns, \<open>shift\<close> being
  what it subtracts from the sample it stops at.\<close>

definition first_sample :: "(real \<Rightarrow> bool) \<Rightarrow> real \<Rightarrow> real \<Rightarrow> real \<Rightarrow> nat \<Rightarrow> bool" where
  "first_sample Q step t bound k =
     (Q (t + real k * step) \<and> t + real k * step \<le> bound \<and> (\<forall>j<k. \<not> Q (t + real j * step)))"

definition no_sample :: "(real \<Rightarrow> bool) \<Rightarrow> real \<Rightarrow> real \<Rightarrow> real \<Rightarrow> bool" where
  "no_sample Q step t bound = (\<forall>j::nat. t + real j * step \<le> bound \<longrightarrow> \<not> Q (t + real j * step))"

definition sample_result :: "(real \<Rightarrow> bool) \<Rightarrow> real \<Rightarrow> real \<Rightarrow> real \<Rightarrow> real \<Rightarrow> flt \<Rightarrow> bool" where
  "sample_result Q step t bound shift r =
     (case r of
        Fin x \<Rightarrow> (\<exists>k. x = t + real k * step - shift \<and> first_sample Q step t bound k)
      | PInf \<Rightarrow> no_sample Q step t bound)"

text \<open>
  An interval of a cache is a maximal run of unblocked samples within one period: it begins
  at a sample before the end of the period, does not end before it begins nor after the
  period, holds only unblocked samples, is preceded by a blocked sample unless it begins at
  0, and is followed by a blocked sample unless its end is the period boundary.
\<close>

definition unblocked_run :: "real \<Rightarrow> 'o link \<Rightarrow> timeline_event \<Rightarrow> bool" where
  "unblocked_run step edge a =
     ((\<exists>m::nat. t_begin a = real m * step) \<and>
      t_begin a < getPeriod edge \<and> t_begin a \<le> t_end a \<and> t_end a \<le> getPeriod edge \<and>
      (\<forall>i::nat. t_begin a + real i * step \<le> t_end a \<longrightarrow> \<not> isBlocked edge (t_begin a + real i * step)) \<and>
      (t_begin a = 0 \<or> isBlocked edge (t_begin a - step)) \<and>
      (t_end a = getPeriod edge \<or> isBlocked edge (t_end a + step)))"

text \<open>
  A time lies in an interval of the cache, the interval read as the closed interval
  \<open>[t_begin, t_end]\<close> (\<open>covered\<close>) or as the half-open interval
  \<open>[t_begin, t_end)\<close> of the specification (\<open>covered_half_open\<close>).
\<close>

definition covered :: "timeline \<Rightarrow> real \<Rightarrow> bool" where
  "covered c x = list_ex (\<lambda>a. t_begin a \<le> x \<and> x \<le> t_end a) c"

definition covered_half_open :: "timeline \<Rightarrow> real \<Rightarrow> bool" where
  "covered_half_open c x = list_ex (\<lambda>a. t_begin a \<le> x \<and> x < t_end a) c"

text \<open>
  The cache of a link as \<open>createCache\<close> builds it: in the order of the start times with
  every interval ending before the next begins, each interval a maximal unblocked run, and
  every unblocked sample within the period in one of them, the intervals read as closed.
\<close>

definition visibility_cache :: "real \<Rightarrow> 'o link \<Rightarrow> timeline \<Rightarrow> bool" where
  "visibility_cache step edge c =
     (sorted_wrt (\<lambda>a b. t_end a < t_begin b) c \<and>
      list_all (unblocked_run step edge) c \<and>
      (\<forall>j::nat. real j * step < getPeriod edge \<and> \<not> isBlocked edge (real j * step)
          \<longrightarrow> covered c (real j * step)))"

text \<open>The invariant of the loop of \<open>createCache\<close> at time \<open>t\<close>, the clamping of the end of
  an interval, and what the loop for one link leaves unchanged.\<close>

definition scan_inv :: "real \<Rightarrow> 'o link \<Rightarrow> timeline \<Rightarrow> real \<Rightarrow> bool" where
  "scan_inv step edge c t =
     (sorted_wrt (\<lambda>a b. t_end a < t_begin b) c \<and>
      list_all (\<lambda>a. unblocked_run step edge a \<and> t_end a < t) c \<and>
      (\<forall>j::nat. real j * step < getPeriod edge \<and> real j * step < t \<and> \<not> isBlocked edge (real j * step)
          \<longrightarrow> covered c (real j * step)) \<and>
      (getPeriod edge \<le> t \<or> ((\<exists>m::nat. t = real m * step) \<and> (t = 0 \<or> isBlocked edge t))))"

text \<open>
  The sampling of a link is exact under a rounding \<open>rnd\<close> when the period is a
  float and every sample time \<open>m * step\<close> that a loop over at most two periods can
  reach is a float, so that stepping by \<open>step\<close> and back incurs no rounding.
\<close>

definition exact_sampling :: "(real \<Rightarrow> real) \<Rightarrow> real \<Rightarrow> real \<Rightarrow> bool" where
  "exact_sampling rnd step period =
     (rnd period = period \<and>
      (\<forall>m::nat. real m * step \<le> rnd (period + period) + step
          \<longrightarrow> rnd (real m * step) = real m * step))"

definition clamp_end :: "real \<Rightarrow> flt \<Rightarrow> real" where
  "clamp_end period r = (case r of PInf \<Rightarrow> period | Fin te \<Rightarrow> if te \<ge> period then period else te)"

definition frame :: "nat \<Rightarrow> 'o solver \<Rightarrow> 'o solver \<Rightarrow> bool" where
  "frame k s s' =
     (step_size s' = step_size s \<and> instance_edges s' = instance_edges s \<and>
      default_orientation s' = default_orientation s \<and>
      satellite_orientation s' = satellite_orientation s \<and>
      (\<forall>k'. k' \<noteq> k \<longrightarrow> slots_of s' k' = slots_of s k'))"

section \<open>Example inputs\<close>

text \<open>Concrete instances, files, links and solver states at which the theorems below are
  evaluated.\<close>

definition example_sat :: "real satellite" where
  "example_sat = Satellite \<lparr>height_perigee = 200, eccentricity = 0, raan = 0,
     argument_periapsis = 0, inclination = 0, rotation_speed = 1\<rparr> 0 398600 6378"

definition example_instance :: "real Instance" where
  "example_instance = \<lparr>radius_central_mass = 6378, gravitational_parameter = 398600,
     orbits_block = 0, orbits = [example_sat, example_sat],
     edges = [Edge (Ptr 0 0) (Ptr 0 1) 6378]\<rparr>"





definition link_a :: "vec3 link" where
  "link_a = \<lparr>link_addr = 100, v1_addr = 1, v2_addr = 2,
     v1_rotation_speed = 1, v2_rotation_speed = 1,
     v1_position = (\<lambda>t. (7000, 0, 0)), v2_position = (\<lambda>t. (0, 7000, 0)),
     link_radius = 6378, getPeriod = 10, isBlocked = (\<lambda>t. t < 1 \<or> 2 \<le> t),
     canAlign = (\<lambda>o1 o2 t. True)\<rparr>"

definition link_b :: "vec3 link" where
  "link_b = \<lparr>link_addr = 101, v1_addr = 2, v2_addr = 3,
     v1_rotation_speed = 1, v2_rotation_speed = 1,
     v1_position = (\<lambda>t. (0, 7000, 0)), v2_position = (\<lambda>t. (0, 0, 7000)),
     link_radius = 6378, getPeriod = 10, isBlocked = (\<lambda>t. t < 2 \<or> 3 \<le> t),
     canAlign = (\<lambda>o1 o2 t. True)\<rparr>"

definition two_link_solver :: "vec3 solver" where
  "two_link_solver = \<lparr>instance_edges = [link_a, link_b], step_size = 1,
     default_orientation = (0, 0, 0), satellite_orientation = Map.empty,
     edge_time_slots = [100 \<mapsto> [\<lparr>t_begin = 1, t_end = 2\<rparr>], 101 \<mapsto> [\<lparr>t_begin = 2, t_end = 3\<rparr>]]\<rparr>"

definition uncached_solver :: "vec3 solver" where
  "uncached_solver = \<lparr>instance_edges = [link_a, link_b], step_size = 1,
     default_orientation = (0, 0, 0), satellite_orientation = Map.empty,
     edge_time_slots = Map.empty\<rparr>"

definition no_link_solver :: "vec3 solver" where
  "no_link_solver = \<lparr>instance_edges = [], step_size = 1,
     default_orientation = (0, 0, 0), satellite_orientation = Map.empty,
     edge_time_slots = Map.empty\<rparr>"



definition link_c :: "vec3 link" where
  "link_c = \<lparr>link_addr = 102, v1_addr = 1, v2_addr = 3,
     v1_rotation_speed = 1, v2_rotation_speed = 1,
     v1_position = (\<lambda>t. (7000, 0, 0)), v2_position = (\<lambda>t. (0, 0, 7000)),
     link_radius = 6378, getPeriod = 10,
     isBlocked = (\<lambda>t. \<not> (1 \<le> t \<and> t < 2 \<or> 4 \<le> t \<and> t < 6)),
     canAlign = (\<lambda>o1 o2 t. 5 \<le> t)\<rparr>"


definition stuck_link :: "vec3 link" where
  "stuck_link = \<lparr>link_addr = 103, v1_addr = 1, v2_addr = 2,
     v1_rotation_speed = 0, v2_rotation_speed = 1,
     v1_position = (\<lambda>t. (7000, 0, 0)), v2_position = (\<lambda>t. (0, 7000, 0)),
     link_radius = 6378, getPeriod = 10, isBlocked = (\<lambda>t. False),
     canAlign = (\<lambda>o1 o2 t. False)\<rparr>"

definition stuck_solver :: "vec3 solver" where
  "stuck_solver = \<lparr>instance_edges = [stuck_link], step_size = 1,
     default_orientation = (0, 0, 0), satellite_orientation = Map.empty,
     edge_time_slots = [103 \<mapsto> [\<lparr>t_begin = 0, t_end = 10\<rparr>]]\<rparr>"



definition link_g :: "vec3 link" where
  "link_g = \<lparr>link_addr = 105, v1_addr = 1, v2_addr = 2,
     v1_rotation_speed = 1, v2_rotation_speed = 1,
     v1_position = (\<lambda>t. (- 4096, 0, 6500)), v2_position = (\<lambda>t. (4096, 0, 6500)),
     link_radius = 7000, getPeriod = 10, isBlocked = (\<lambda>t. True),
     canAlign = (\<lambda>o1 o2 t. True)\<rparr>"

definition link_d :: "vec3 link" where
  "link_d = \<lparr>link_addr = 106, v1_addr = 1, v2_addr = 2,
     v1_rotation_speed = 1, v2_rotation_speed = 1,
     v1_position = (\<lambda>t. (7000, 0, 0)), v2_position = (\<lambda>t. (0, 7000, 0)),
     link_radius = 6378, getPeriod = 3, isBlocked = (\<lambda>t. t < 1),
     canAlign = (\<lambda>o1 o2 t. True)\<rparr>"

definition link_e :: "vec3 link" where
  "link_e = \<lparr>link_addr = 107, v1_addr = 2, v2_addr = 3,
     v1_rotation_speed = 1, v2_rotation_speed = 1,
     v1_position = (\<lambda>t. (0, 7000, 0)), v2_position = (\<lambda>t. (0, 0, 7000)),
     link_radius = 6378, getPeriod = 2, isBlocked = (\<lambda>t. True),
     canAlign = (\<lambda>o1 o2 t. True)\<rparr>"

definition link_c_fresh_solver :: "vec3 solver" where
  "link_c_fresh_solver = \<lparr>instance_edges = [link_c], step_size = 1,
     default_orientation = (0, 0, 0), satellite_orientation = Map.empty,
     edge_time_slots = Map.empty\<rparr>"

definition link_h :: "vec3 link" where
  "link_h = \<lparr>link_addr = 108, v1_addr = 1, v2_addr = 2,
     v1_rotation_speed = 1, v2_rotation_speed = 1,
     v1_position = (\<lambda>t. (7000, 0, 0)), v2_position = (\<lambda>t. (- 7000, 0, 0)),
     link_radius = 6378, getPeriod = 33554432, isBlocked = (\<lambda>t. True),
     canAlign = (\<lambda>o1 o2 t. True)\<rparr>"

definition link_h_solver :: "vec3 solver" where
  "link_h_solver = \<lparr>instance_edges = [link_h], step_size = 1,
     default_orientation = (0, 0, 0), satellite_orientation = Map.empty,
     edge_time_slots = Map.empty\<rparr>"

definition link_i :: "vec3 link" where
  "link_i = \<lparr>link_addr = 109, v1_addr = 1, v2_addr = 2,
     v1_rotation_speed = 1, v2_rotation_speed = 1,
     v1_position = (\<lambda>t. (7000, 0, 0)), v2_position = (\<lambda>t. (- 7000, 0, 0)),
     link_radius = 6378, getPeriod = 2, isBlocked = (\<lambda>t. t \<noteq> 11744051 / 8388608),
     canAlign = (\<lambda>o1 o2 t. True)\<rparr>"

definition link_i_solver :: "vec3 solver" where
  "link_i_solver = \<lparr>instance_edges = [link_i], step_size = 11744051 / 16777216,
     default_orientation = (0, 0, 0), satellite_orientation = Map.empty,
     edge_time_slots = Map.empty\<rparr>"

definition fresh_solver :: "vec3 solver" where
  "fresh_solver = \<lparr>instance_edges = [link_d, link_e], step_size = 1,
     default_orientation = (0, 0, 0), satellite_orientation = Map.empty,
     edge_time_slots = Map.empty\<rparr>"

section \<open>Theorems about the instance\<close>

lemma fill_orbit_map_lookup:
  "fill_orbit_map sb nb ix m (Ptr sb i) =
     (if i \<in> set ix then Some (Ptr nb i) else m (Ptr sb i))"
  by (induction ix arbitrary: m) (auto simp: addr_of_def)

lemma map_index_filled:
  assumes "i < n"
  shows "map_index (fill_orbit_map sb nb [0..<n] Map.empty) (Ptr sb i) = Ptr nb i"
  using assms by (simp add: map_index_def fill_orbit_map_lookup)

lemma remap_edge_own:
  assumes "own_ptr source (getV1 e)" "own_ptr source (getV2 e)"
    and "sb = orbits_block source" "n = length (orbits source)"
  shows "\<exists>i j. i < n \<and> j < n \<and> getV1 e = Ptr sb i \<and> getV2 e = Ptr sb j \<and>
           remap_edge (fill_orbit_map sb nb [0..<n] Map.empty) e
             = Edge (Ptr nb i) (Ptr nb j) (getRadiusCentralMass e)"
proof -
  from assms obtain i where i: "getV1 e = Ptr sb i" "i < n"
    by (auto simp: own_ptr_def split: sat_ptr.splits)
  from assms obtain j where j: "getV2 e = Ptr sb j" "j < n"
    by (auto simp: own_ptr_def split: sat_ptr.splits)
  show ?thesis
    using i j by (auto simp: remap_edge_def Let_def map_index_filled)
qed

lemma remapped_edges_rebound:
  assumes ok: "refs_ok source" and fresh: "nb \<noteq> orbits_block source"
    and c: "orbits c = orbits source" "orbits_block c = nb"
      "edges c = map (remap_edge (fill_orbit_map (orbits_block source) nb
                   [0..<length (orbits source)] Map.empty)) (edges source)"
  shows "is_rebound_copy source c"
proof -
  let ?m = "fill_orbit_map (orbits_block source) nb [0..<length (orbits source)] Map.empty"
  have each: "own_ptr c (getV1 (remap_edge ?m e)) \<and> own_ptr c (getV2 (remap_edge ?m e)) \<and>
      \<not> own_ptr source (getV1 (remap_edge ?m e)) \<and> \<not> own_ptr source (getV2 (remap_edge ?m e)) \<and>
      ptr_index (getV1 (remap_edge ?m e)) = ptr_index (getV1 e) \<and>
      ptr_index (getV2 (remap_edge ?m e)) = ptr_index (getV2 e)"
    if "e \<in> set (edges source)" for e
  proof -
    from ok that have "own_ptr source (getV1 e)" "own_ptr source (getV2 e)"
      by (auto simp: refs_ok_def list_all_iff)
    from remap_edge_own[OF this refl refl, of nb] obtain i j where
      "i < length (orbits source)" "j < length (orbits source)"
      "getV1 e = Ptr (orbits_block source) i" "getV2 e = Ptr (orbits_block source) j"
      "remap_edge ?m e = Edge (Ptr nb i) (Ptr nb j) (getRadiusCentralMass e)"
      by blast
    then show ?thesis
      using fresh c by (simp add: Edge_def own_ptr_def)
  qed
  have "list_all (\<lambda>e. own_ptr c (getV1 e) \<and> own_ptr c (getV2 e) \<and>
                     \<not> own_ptr source (getV1 e) \<and> \<not> own_ptr source (getV2 e)) (edges c)"
    using each by (simp add: c list_all_iff)
  moreover have "map (\<lambda>e. (ptr_index (getV1 e), ptr_index (getV2 e))) (edges c) =
      map (\<lambda>e. (ptr_index (getV1 e), ptr_index (getV2 e))) (edges source)"
    using each by (simp add: c)
  ultimately show ?thesis
    by (simp add: is_rebound_copy_def c)
qed

text \<open>
  Claim C7. After copy construction, and after copy assignment from a different object,
  the copy has as many orbits and edges as the source, every edge of the copy points into
  the copy's own orbit vector and never into the source's, and each copied edge connects
  the orbits at the same indices as in the source. The source satisfies the reference
  invariant of instances, and the copy's orbit storage is not the source's. Assignment of
  an object to itself leaves it as it is.
\<close>

theorem copy_rebinds_edges:
  assumes "refs_ok source" and "new_block \<noteq> orbits_block source"
  shows "is_rebound_copy source (copy_construct new_block source) \<and>
         (a \<noteq> b \<longrightarrow> is_rebound_copy source (copy_assign new_block (a, this) (b, source))) \<and>
         copy_assign new_block (b, source) (b, source) = source"
proof (intro conjI impI)
  show "is_rebound_copy source (copy_construct new_block source)"
    by (rule remapped_edges_rebound[OF assms]) (simp_all add: copy_construct_def Let_def)
  show "is_rebound_copy source (copy_assign new_block (a, this) (b, source))" if "a \<noteq> b"
    using that
    by (intro remapped_edges_rebound[OF assms]) (simp_all add: copy_assign_def Let_def)
  show "copy_assign new_block (b, source) (b, source) = source"
    by (simp add: copy_assign_def)
qed

theorem copy_rebinds_edges_witness:
  "refs_ok example_instance \<and> (1::nat) \<noteq> orbits_block example_instance \<and> (3::nat) \<noteq> 4 \<and>
   is_rebound_copy example_instance (copy_construct 1 example_instance) \<and>
   is_rebound_copy example_instance
     (copy_assign 1 (3, example_instance\<lparr>orbits_block := 1\<rparr>) (4, example_instance)) \<and>
   edges (copy_construct 1 example_instance) = [Edge (Ptr 1 0) (Ptr 1 1) 6378]"
proof -
  have ok: "refs_ok example_instance"
    by (simp add: refs_ok_def example_instance_def own_ptr_def Edge_def)
  have fresh: "(1::nat) \<noteq> orbits_block example_instance"
    by (simp add: example_instance_def)
  have ed: "edges (copy_construct 1 example_instance) = [Edge (Ptr 1 0) (Ptr 1 1) 6378]"
    by (simp add: copy_construct_def example_instance_def Let_def remap_edge_def
        map_index_def addr_of_def Edge_def)
  show ?thesis
    using copy_rebinds_edges[OF ok fresh, of 3 4 "example_instance\<lparr>orbits_block := 1\<rparr>"] ok fresh ed
    by simp
qed



section \<open>Theorems about the solver\<close>

subsection \<open>Single-precision rounding\<close>

lemma round_half_even_of_int: "round_half_even (of_int n) = n"
  by (simp add: round_half_even_def)

lemma round_half_even_cases:
  "round_half_even x = \<lfloor>x\<rfloor> \<or> round_half_even x = \<lfloor>x\<rfloor> + 1"
  by (simp add: round_half_even_def Let_def)

lemma round_half_even_mono:
  assumes "x \<le> y"
  shows "round_half_even x \<le> round_half_even y"
proof (cases "\<lfloor>x\<rfloor> = \<lfloor>y\<rfloor>")
  case True
  then show ?thesis using assms by (auto simp: round_half_even_def Let_def)
next
  case False
  then have "\<lfloor>x\<rfloor> + 1 \<le> \<lfloor>y\<rfloor>" using floor_mono[OF assms] by linarith
  moreover have "round_half_even x \<le> \<lfloor>x\<rfloor> + 1" "\<lfloor>y\<rfloor> \<le> round_half_even y"
    using round_half_even_cases[of x] round_half_even_cases[of y] by auto
  ultimately show ?thesis by linarith
qed

lemma round_half_even_minus: "round_half_even (- x) = - round_half_even x"
proof (cases "x = of_int \<lfloor>x\<rfloor>")
  case True
  then obtain n where "x = of_int n" ..
  then have "- x = of_int (- n)" by simp
  then show ?thesis using \<open>x = of_int n\<close> by (simp only: round_half_even_of_int)
next
  case False
  then have lt: "of_int \<lfloor>x\<rfloor> < x" by linarith
  have "\<lfloor>- x\<rfloor> = - \<lfloor>x\<rfloor> - 1"
    using lt by (intro floor_unique) (simp_all, linarith)
  then show ?thesis
    using lt by (auto simp: round_half_even_def Let_def)
qed

lemma powr_powi: "2 powr (of_int k) = (2::real) powi k"
  by (simp add: powr_real_of_int power_int_def power_one_over inverse_eq_divide)

lemma float_exponent_eq:
  assumes "2 powi e \<le> \<bar>x\<bar>" "\<bar>x\<bar> < 2 powi (e + 1)" "- 126 \<le> e"
  shows "float_exponent x = e"
proof -
  have pos: "0 < \<bar>x\<bar>" using assms(1) by (smt (verit) zero_less_power_int)
  have "\<lfloor>log 2 \<bar>x\<bar>\<rfloor> = e"
    using assms(1,2) pos by (simp add: floor_log_eq_powr_iff powr_powi[symmetric])
  then show ?thesis using assms(3) by (simp add: float_exponent_def)
qed

lemma binary32_binade:
  assumes "2 powi e \<le> \<bar>x\<bar>" "\<bar>x\<bar> < 2 powi (e + 1)" "- 126 \<le> e"
  shows "binary32 x = of_int (round_half_even (x / 2 powi (e - 23))) * 2 powi (e - 23)"
proof -
  have "x \<noteq> 0" using assms(1) by (smt (verit) zero_less_power_int)
  then show ?thesis by (simp add: binary32_def float_exponent_eq[OF assms])
qed

lemma float_exponent_ge: "- 126 \<le> float_exponent x"
  by (simp add: float_exponent_def)

lemma float_exponent_upper:
  assumes "x \<noteq> 0"
  shows "\<bar>x\<bar> < 2 powi (float_exponent x + 1)"
proof -
  have pos: "0 < \<bar>x\<bar>" using assms by simp
  have "log 2 \<bar>x\<bar> < of_int (\<lfloor>log 2 \<bar>x\<bar>\<rfloor> + 1)" by linarith
  also have "\<dots> \<le> of_int (float_exponent x + 1)" by (simp add: float_exponent_def)
  finally have "\<bar>x\<bar> < 2 powr of_int (float_exponent x + 1)"
    using pos by (simp add: log_less_iff)
  then show ?thesis by (simp only: powr_powi)
qed

lemma float_exponent_lower:
  assumes "x \<noteq> 0" "- 126 < float_exponent x"
  shows "2 powi (float_exponent x) \<le> \<bar>x\<bar>"
proof -
  have pos: "0 < \<bar>x\<bar>" using assms by simp
  have "float_exponent x = \<lfloor>log 2 \<bar>x\<bar>\<rfloor>" using assms(2) by (simp add: float_exponent_def max_def split: if_splits)
  then have "of_int (float_exponent x) \<le> log 2 \<bar>x\<bar>" by simp
  then have "2 powr of_int (float_exponent x) \<le> \<bar>x\<bar>"
    using pos by (simp add: le_log_iff)
  then show ?thesis by (simp only: powr_powi)
qed

lemma float_exponent_mono:
  assumes "x \<noteq> 0" "\<bar>x\<bar> \<le> \<bar>y\<bar>"
  shows "float_exponent x \<le> float_exponent y"
proof -
  have "log 2 \<bar>x\<bar> \<le> log 2 \<bar>y\<bar>" using assms by simp
  then have "\<lfloor>log 2 \<bar>x\<bar>\<rfloor> \<le> \<lfloor>log 2 \<bar>y\<bar>\<rfloor>" by (rule floor_mono)
  then show ?thesis by (simp add: float_exponent_def)
qed

lemma binary32_minus: "binary32 (- x) = - binary32 x"
  by (simp add: binary32_def float_exponent_def round_half_even_minus)

lemma binary32_nonneg:
  assumes "0 \<le> x"
  shows "0 \<le> binary32 x"
proof (cases "x = 0")
  case True then show ?thesis by (simp add: binary32_def)
next
  case False
  have "0 \<le> x / 2 powi (float_exponent x - 23)" using assms by simp
  from round_half_even_mono[OF this] have "0 \<le> round_half_even (x / 2 powi (float_exponent x - 23))"
    using round_half_even_of_int[of 0] by simp
  then show ?thesis using False by (simp add: binary32_def)
qed

lemma binary32_pos_mono:
  assumes "0 < x" "x \<le> y"
  shows "binary32 x \<le> binary32 y"
proof -
  let ?ex = "float_exponent x" and ?ey = "float_exponent y"
  have x0: "x \<noteq> 0" and y0: "y \<noteq> 0" using assms by simp_all
  have le: "?ex \<le> ?ey" using float_exponent_mono[of x y] assms by simp
  show ?thesis
  proof (cases "?ex = ?ey")
    case True
    have "x / 2 powi (?ey - 23) \<le> y / 2 powi (?ey - 23)"
      using assms by (simp add: divide_right_mono)
    from round_half_even_mono[OF this] show ?thesis
      using x0 y0 True by (simp add: binary32_def)
  next
    case False
    with le have lt: "?ex + 1 \<le> ?ey" by simp
    have "x < 2 powi (?ex + 1)" using float_exponent_upper[OF x0] assms by simp
    then have "x / 2 powi (?ex - 23) \<le> 2 powi (?ex + 1) / 2 powi (?ex - 23)"
      by (simp add: divide_right_mono)
    also have "2 powi (?ex + 1) / 2 powi (?ex - 23) = (2::real) powi 24"
      by (simp add: power_int_diff[symmetric])
    finally have "round_half_even (x / 2 powi (?ex - 23)) \<le> round_half_even (of_int 16777216)"
      by (intro round_half_even_mono) simp
    then have a: "of_int (round_half_even (x / 2 powi (?ex - 23))) \<le> (2::real) powi 24"
      by (simp only: round_half_even_of_int) simp
    have "binary32 x = of_int (round_half_even (x / 2 powi (?ex - 23))) * 2 powi (?ex - 23)"
      using x0 by (simp add: binary32_def)
    also have "\<dots> \<le> 2 powi 24 * 2 powi (?ex - 23)"
      using a by (intro mult_right_mono) simp_all
    also have "\<dots> = 2 powi (?ex + 1)"
      using power_int_add[of "2::real" 24 "?ex - 23"] by (simp add: add.commute)
    also have "\<dots> \<le> 2 powi ?ey" using lt by (intro power_int_increasing) simp_all
    finally have 1: "binary32 x \<le> 2 powi ?ey" .
    have "- 126 < ?ey" using lt float_exponent_ge[of x] by linarith
    from float_exponent_lower[OF y0 this] have "2 powi ?ey \<le> y" using assms by simp
    then have "2 powi ?ey / 2 powi (?ey - 23) \<le> y / 2 powi (?ey - 23)"
      by (simp add: divide_right_mono)
    moreover have "2 powi ?ey / 2 powi (?ey - 23) = (2::real) powi 23"
      by (simp add: power_int_diff[symmetric])
    ultimately have "round_half_even (of_int 8388608) \<le> round_half_even (y / 2 powi (?ey - 23))"
      by (intro round_half_even_mono) simp
    then have b: "(2::real) powi 23 \<le> of_int (round_half_even (y / 2 powi (?ey - 23)))"
      by (simp only: round_half_even_of_int) simp
    have "2 powi ?ey = 2 powi 23 * (2::real) powi (?ey - 23)"
      using power_int_add[of "2::real" 23 "?ey - 23"] by simp
    also have "\<dots> \<le> of_int (round_half_even (y / 2 powi (?ey - 23))) * 2 powi (?ey - 23)"
      using b by (intro mult_right_mono) simp_all
    also have "\<dots> = binary32 y" using y0 by (simp add: binary32_def)
    finally show ?thesis using 1 by linarith
  qed
qed

lemma binary32_mono:
  assumes "x \<le> y"
  shows "binary32 x \<le> binary32 y"
proof -
  consider "0 < x" | "x \<le> 0" "0 \<le> y" | "y < 0" using assms by linarith
  then show ?thesis
  proof cases
    case 1 then show ?thesis using assms by (rule binary32_pos_mono)
  next
    case 2
    have "binary32 x \<le> 0" using binary32_nonneg[of "- x"] 2 by (simp add: binary32_minus)
    moreover have "0 \<le> binary32 y" using 2 by (simp add: binary32_nonneg)
    ultimately show ?thesis by linarith
  next
    case 3
    then have "binary32 (- y) \<le> binary32 (- x)" using assms by (intro binary32_pos_mono) simp_all
    then show ?thesis by (simp add: binary32_minus)
  qed
qed

lemma binary32_representable:
  assumes m: "\<bar>m\<bar> < 16777216" and k: "- 149 \<le> k"
  shows "binary32 (of_int m * 2 powi k) = of_int m * 2 powi k"
proof (cases "m = 0")
  case True then show ?thesis by (simp add: binary32_def)
next
  case False
  define x where "x = of_int m * (2::real) powi k"
  define e where "e = float_exponent x"
  have x0: "x \<noteq> 0" using False by (simp add: x_def)
  have ek: "e - 23 \<le> k"
  proof (cases "- 126 < e")
    case False
    then show ?thesis using k float_exponent_ge[of x] by (simp add: e_def)
  next
    case True
    from float_exponent_lower[OF x0] True have "2 powi e \<le> \<bar>x\<bar>" by (simp add: e_def)
    also have "\<bar>x\<bar> = \<bar>of_int m\<bar> * (2::real) powi k"
      by (simp add: x_def abs_mult)
    also have "\<dots> < 2 powi 24 * 2 powi k"
    proof (rule mult_strict_right_mono)
      have "\<bar>real_of_int m\<bar> = real_of_int \<bar>m\<bar>" by simp
      also have "\<dots> < 16777216" using m by linarith
      finally show "\<bar>real_of_int m\<bar> < 2 powi 24" by simp
      show "0 < (2::real) powi k" by simp
    qed
    also have "\<dots> = 2 powi (24 + k)" using power_int_add[of "2::real" 24 k] by simp
    finally have lt: "2 powi e < (2::real) powi (24 + k)" .
    have "e < 24 + k"
    proof (rule ccontr)
      assume "\<not> e < 24 + k"
      then have "24 + k \<le> e" by simp
      then have "(2::real) powi (24 + k) \<le> 2 powi e" by (intro power_int_increasing) simp_all
      with lt show False by simp
    qed
    then show ?thesis by simp
  qed
  then obtain n :: nat where n: "k = (e - 23) + int n" by (metis zle_iff_zadd)
  have split: "(2::real) powi k = 2 powi (e - 23) * 2 ^ n"
    using power_int_add[of "2::real" "e - 23" "int n"] n by simp
  have u0: "(2::real) powi (e - 23) \<noteq> 0" by simp
  have "x / 2 powi (e - 23) = of_int m * 2 ^ n"
    using u0 by (simp add: x_def split)
  also have "\<dots> = of_int (m * 2 ^ n)" by simp
  finally have "round_half_even (x / 2 powi (e - 23)) = m * 2 ^ n"
    by (simp only: round_half_even_of_int)
  then have "binary32 x = of_int (m * 2 ^ n) * 2 powi (e - 23)"
    using x0 by (simp add: binary32_def e_def)
  also have "\<dots> = x" by (simp add: x_def split)
  finally show ?thesis by (simp only: x_def)
qed

lemma binary32_of_int:
  assumes "\<bar>n\<bar> \<le> 16777216"
  shows "binary32 (of_int n) = of_int n"
proof (cases "\<bar>n\<bar> = 16777216")
  case True
  then have "n = 1 * 16777216 \<or> n = - 1 * 16777216" by linarith
  then show ?thesis
    using binary32_representable[of 1 24] binary32_representable[of "- 1" 24] by auto
next
  case False
  with assms have "\<bar>n\<bar> < 16777216" by simp
  from binary32_representable[OF this, of 0] show ?thesis by simp
qed


lemma binary32_numeral:
  "numeral n \<le> (16777216::int) \<Longrightarrow> binary32 (numeral n) = numeral n"
  using binary32_of_int[of "numeral n"] by simp

lemma binary32_zero_one: "binary32 0 = 0" "binary32 1 = 1"
  using binary32_of_int[of 0] binary32_of_int[of 1] by simp_all

lemma binary32_of_nat:
  assumes "real m \<le> 16777216"
  shows "binary32 (real m) = real m"
proof -
  have "\<bar>int m\<bar> \<le> 16777216" using assms by linarith
  from binary32_of_int[OF this] show ?thesis by simp
qed

lemma mono_binary32: "mono binary32"
  by (rule monoI) (rule binary32_mono)


subsection \<open>The cache lookup and the value of nextVisibility\<close>

lemma slots_index_fst: "fst (slots_index s k) = slots_of s k"
  by (simp add: slots_index_def slots_of_def split: option.splits)

lemma slots_of_touched: "slots_of (snd (slots_index s k)) k' = slots_of s k'"
  by (simp add: slots_index_def slots_of_def split: option.splits)

lemma touched_fields:
  "instance_edges (snd (slots_index s k)) = instance_edges s"
  "step_size (snd (slots_index s k)) = step_size s"
  "default_orientation (snd (slots_index s k)) = default_orientation s"
  "satellite_orientation (snd (slots_index s k)) = satellite_orientation s"
  by (simp_all add: slots_index_def split: option.splits)

lemma nextVisibility_value:
  "nextVisibility s e t0 =
     map_sum id (\<lambda>r. (r, snd (slots_index s (link_addr e))))
       (visibility_time (slots_of s (link_addr e)) (getPeriod e) t0)"
  by (cases "slots_index s (link_addr e)")
     (auto simp: nextVisibility_def visibility_time_def Let_def slots_index_fst[symmetric]
        split: option.splits)

lemma int_of_quotient_zero: "p \<noteq> 0 \<Longrightarrow> int_of_quotient 0 p = Some 0"
  by (simp add: int_of_quotient_def trunc_def)

lemma fmodf_zero: "fmodf 0 p = 0"
  by (simp add: fmodf_def trunc_def)

lemma nextTimeWithEvent_nonempty:
  "tline \<noteq> [] \<Longrightarrow> \<exists>r. nextTimeWithEvent tline t True = Some r"
  by (cases tline) (auto simp: nextTimeWithEvent_def split: option.splits)

lemma first_visibility_no_fault:
  "getPeriod e \<noteq> 0 \<Longrightarrow> \<exists>v. first_visibility s e = Inr v"
  using nextTimeWithEvent_nonempty[of "slots_of s (link_addr e)" "fmodf 0 (getPeriod e)"]
  by (auto simp: first_visibility_def visibility_time_def int_of_quotient_zero)

lemma first_visibility_times_eq:
  "first_visibility_times s =
     List.map_filter (\<lambda>e. case first_visibility s e of Inr (Fin x) \<Rightarrow> Some x | _ \<Rightarrow> None)
       (instance_edges s)"
proof -
  have "(case nextVisibility s e 0 of Inr (Fin x, s') \<Rightarrow> Some x | _ \<Rightarrow> None) =
        (case first_visibility s e of Inr (Fin x) \<Rightarrow> Some x | _ \<Rightarrow> None)" for e
    by (cases "first_visibility s e")
       (auto simp: nextVisibility_value first_visibility_def split: flt.splits)
  then show ?thesis
    by (simp add: first_visibility_times_def)
qed

subsection \<open>lowerBound\<close>

lemma lowerBound_loop_fold:
  assumes "\<forall>e\<in>set es. \<exists>v. first_visibility s e = Inr v"
  shows "\<exists>s'. lowerBound_loop s es lb =
           Inr (fold (\<lambda>e b. raise_bound b (case first_visibility s e of Inr v \<Rightarrow> v | Inl f \<Rightarrow> PInf)) es lb, s')
         \<and> (\<forall>k. slots_of s' k = slots_of s k)"
  using assms
proof (induction es arbitrary: s lb)
  case Nil
  then show ?case by simp
next
  case (Cons e es)
  from Cons.prems obtain v where v: "first_visibility s e = Inr v" by auto
  let ?s1 = "snd (slots_index s (link_addr e))"
  have nv: "nextVisibility s e 0 = Inr (v, ?s1)"
    using v by (simp add: nextVisibility_value first_visibility_def)
  have same: "first_visibility ?s1 e' = first_visibility s e'" for e'
    by (simp add: first_visibility_def slots_of_touched)
  have "\<forall>e\<in>set es. \<exists>v. first_visibility ?s1 e = Inr v"
    using Cons.prems by (simp add: same)
  from Cons.IH[OF this, of "raise_bound lb v"] obtain s' where
    "lowerBound_loop ?s1 es (raise_bound lb v) =
       Inr (fold (\<lambda>e b. raise_bound b (case first_visibility ?s1 e of Inr v \<Rightarrow> v | Inl f \<Rightarrow> PInf)) es
              (raise_bound lb v), s')"
    "\<forall>k. slots_of s' k = slots_of ?s1 k"
    by blast
  then show ?case
    using nv v by (auto simp: same slots_of_touched raise_bound_def)
qed

lemma fold_raise_bound_max:
  "fold (\<lambda>e b. raise_bound b (f e)) es (Fin b0) =
     Fin (fold max (List.map_filter (\<lambda>e. case f e of Fin x \<Rightarrow> Some x | PInf \<Rightarrow> None) es) b0)"
proof (induction es arbitrary: b0)
  case Nil
  then show ?case by (simp add: List.map_filter_simps)
next
  case (Cons e es)
  show ?case
  proof (cases "f e")
    case (Fin x)
    then show ?thesis
      using Cons.IH[of x] Cons.IH[of b0]
      by (auto simp: raise_bound_def List.map_filter_simps max_def)
  next
    case PInf
    then show ?thesis
      using Cons.IH[of b0] by (simp add: raise_bound_def List.map_filter_simps)
  qed
qed

lemma fold_raise_bound:
  "fold (\<lambda>e b. raise_bound b (f e)) es (Fin b0) =
     Fin (Max (set (b0 # List.map_filter (\<lambda>e. case f e of Fin x \<Rightarrow> Some x | PInf \<Rightarrow> None) es)))"
  by (simp only: fold_raise_bound_max Max.set_eq_fold)

lemma two_link_first_visibilities:
  "first_visibility two_link_solver link_a = Inr (Fin 1)"
  "first_visibility two_link_solver link_b = Inr (Fin 2)"
  by (simp_all add: first_visibility_def visibility_time_def slots_of_def two_link_solver_def
      link_a_def link_b_def int_of_quotient_zero fmodf_zero nextTimeWithEvent_def)

lemma two_link_times: "first_visibility_times two_link_solver = [1, 2]"
proof -
  have ed: "instance_edges two_link_solver = [link_a, link_b]"
    by (simp add: two_link_solver_def)
  show ?thesis
    by (simp add: first_visibility_times_eq two_link_first_visibilities
        List.map_filter_simps ed)
qed

text \<open>
  Claim C1, as amended. \<open>lowerBound\<close> returns the maximum, over all links, of the finite
  first-visibility times \<open>nextVisibility(e, 0)\<close>, and 0 when no link has a finite
  first-visibility time above 0. The links have a positive period.
\<close>

theorem lowerBound_is_maximum:
  assumes "\<forall>e\<in>set (instance_edges s). 0 < getPeriod e"
  shows "\<exists>s'. lowerBound s = Inr (Fin (Max (set (0 # first_visibility_times s))), s')"
proof -
  have nf: "\<forall>e\<in>set (instance_edges s). \<exists>v. first_visibility s e = Inr v"
  proof
    fix e assume "e \<in> set (instance_edges s)"
    with assms have "getPeriod e \<noteq> 0" by auto
    then show "\<exists>v. first_visibility s e = Inr v" by (rule first_visibility_no_fault)
  qed
  have eq: "List.map_filter (\<lambda>e. case (case first_visibility s e of Inr v \<Rightarrow> v | Inl f \<Rightarrow> PInf) of
                Fin x \<Rightarrow> Some x | PInf \<Rightarrow> None) es
          = List.map_filter (\<lambda>e. case first_visibility s e of Inr (Fin x) \<Rightarrow> Some x | _ \<Rightarrow> None) es"
    if "\<forall>e\<in>set es. \<exists>v. first_visibility s e = Inr v" for es
    using that by (induction es) (auto simp: List.map_filter_simps split: sum.splits flt.splits)
  from lowerBound_loop_fold[OF nf, of "Fin 0"] show ?thesis
    by (auto simp: lowerBound_def fold_raise_bound first_visibility_times_eq eq[OF nf])
qed

theorem lowerBound_is_maximum_witness:
  "list_all (\<lambda>e. 0 < getPeriod e) (instance_edges two_link_solver) \<and>
   first_visibility_times two_link_solver = [1, 2] \<and>
   (\<exists>s'. lowerBound two_link_solver = Inr (Fin 2, s'))"
proof -
  have p: "\<forall>e\<in>set (instance_edges two_link_solver). 0 < getPeriod e"
    by (simp add: two_link_solver_def link_a_def link_b_def)
  show ?thesis
    using lowerBound_is_maximum[OF p] p by (simp add: two_link_times list_all_iff)
qed

text \<open>
  Claim C1 as stated fails: with two links whose first-visibility times are 1 and 2,
  \<open>lowerBound\<close> returns 2, and the minimum of the strictly positive first-visibility
  times is 1.
\<close>

theorem lowerBound_not_minimum:
  "map_sum id fst (lowerBound two_link_solver) = Inr (Fin 2) \<and>
   map_sum id fst (nextVisibility two_link_solver link_a 0) = Inr (Fin 1) \<and>
   map_sum id fst (nextVisibility two_link_solver link_b 0) = Inr (Fin 2) \<and>
   lowerBound_claimed two_link_solver = 1"
proof -
  have lb: "lowerBound_loop two_link_solver [link_a, link_b] (Fin 0) =
        Inr (Fin 2, snd (slots_index (snd (slots_index two_link_solver 100)) 101))"
    using two_link_first_visibilities
    by (simp add: nextVisibility_value first_visibility_def slots_of_touched link_a_def link_b_def)
  have "map_sum id fst (lowerBound two_link_solver) = Inr (Fin 2)"
    using lb by (simp add: lowerBound_def two_link_solver_def)
  moreover have "map_sum id fst (nextVisibility two_link_solver link_a 0) = Inr (Fin 1)"
    using two_link_first_visibilities(1)
    by (simp add: nextVisibility_value first_visibility_def)
  moreover have "map_sum id fst (nextVisibility two_link_solver link_b 0) = Inr (Fin 2)"
    using two_link_first_visibilities(2)
    by (simp add: nextVisibility_value first_visibility_def)
  moreover have "lowerBound_claimed two_link_solver = 1"
    by (simp add: lowerBound_claimed_def two_link_times)
  ultimately show ?thesis by simp
qed

text \<open>
  Claim C10. For an instance with no links, and for an instance whose every link has
  \<open>nextVisibility(e, 0)\<close> equal to \<open>INFINITY\<close> (an empty visibility cache),
  \<open>lowerBound\<close> returns 0.
\<close>

theorem lowerBound_zero:
  "(instance_edges s = [] \<longrightarrow> lowerBound s = Inr (Fin 0, s)) \<and>
   ((\<forall>e\<in>set (instance_edges s). map_sum id fst (nextVisibility s e 0) = Inr PInf) \<longrightarrow>
      (\<exists>s'. lowerBound s = Inr (Fin 0, s')))"
proof (intro conjI impI)
  assume "instance_edges s = []"
  then show "lowerBound s = Inr (Fin 0, s)"
    by (simp add: lowerBound_def)
next
  assume a: "\<forall>e\<in>set (instance_edges s). map_sum id fst (nextVisibility s e 0) = Inr PInf"
  have fv: "first_visibility s e = Inr PInf" if "e \<in> set (instance_edges s)" for e
    using a that
    by (cases "first_visibility s e") (auto simp: nextVisibility_value first_visibility_def)
  then have nf: "\<forall>e\<in>set (instance_edges s). \<exists>v. first_visibility s e = Inr v"
    by blast
  have "fold (\<lambda>e b. raise_bound b (case first_visibility s e of Inr v \<Rightarrow> v | Inl f \<Rightarrow> PInf)) es lb = lb"
    if "set es \<subseteq> set (instance_edges s)" for es lb
    using that by (induction es arbitrary: lb) (auto simp: fv raise_bound_def)
  with lowerBound_loop_fold[OF nf, of "Fin 0"] show "\<exists>s'. lowerBound s = Inr (Fin 0, s')"
    by (auto simp: lowerBound_def)
qed

theorem lowerBound_zero_witness:
  "instance_edges no_link_solver = [] \<and>
   lowerBound no_link_solver = Inr (Fin 0, no_link_solver) \<and>
   list_all (\<lambda>e. map_sum id fst (nextVisibility uncached_solver e 0) = Inr PInf)
     (instance_edges uncached_solver) \<and>
   instance_edges uncached_solver = [link_a, link_b] \<and>
   (\<exists>s'. lowerBound uncached_solver = Inr (Fin 0, s'))"
proof -
  have e0: "instance_edges no_link_solver = []"
    by (simp add: no_link_solver_def)
  have ed: "instance_edges uncached_solver = [link_a, link_b]"
    by (simp add: uncached_solver_def)
  have inf: "\<forall>e\<in>set (instance_edges uncached_solver).
               map_sum id fst (nextVisibility uncached_solver e 0) = Inr PInf"
    by (simp add: ed nextVisibility_value visibility_time_def slots_of_def uncached_solver_def)
  show ?thesis
    using lowerBound_zero[of no_link_solver] lowerBound_zero[of uncached_solver] e0 ed inf
    by (simp add: list_all_iff)
qed

subsection \<open>nextVisibility\<close>

lemma fmodf_less:
  assumes "0 < y"
  shows "fmodf x y < y"
proof (cases "0 \<le> x")
  case True
  then have q: "0 \<le> x / y" using assms by simp
  have "x / y < of_int \<lfloor>x / y\<rfloor> + 1" by linarith
  then have "x < (of_int \<lfloor>x / y\<rfloor> + 1) * y"
    using assms by (simp only: pos_divide_less_eq)
  then show ?thesis
    using q by (simp add: fmodf_def trunc_def algebra_simps)
next
  case False
  then have q: "\<not> 0 \<le> x / y" using assms by (simp add: zero_le_divide_iff)
  have "x / y \<le> of_int \<lceil>x / y\<rceil>" by linarith
  then have "x \<le> of_int \<lceil>x / y\<rceil> * y"
    using assms by (simp only: pos_divide_le_eq)
  then show ?thesis
    using q assms by (simp add: fmodf_def trunc_def)
qed


lemma nextTimeWithEvent_result:
  assumes "nextTimeWithEvent tline t True = Some r"
  shows "t \<le> r \<or> r \<in> t_begin ` set tline"
proof (cases tline)
  case Nil
  with assms show ?thesis by (simp add: nextTimeWithEvent_def)
next
  case (Cons first rest)
  show ?thesis
  proof (cases "find (\<lambda>e. t < t_end e \<or> t \<le> t_begin e) tline")
    case None
    with assms Cons show ?thesis by (auto simp: nextTimeWithEvent_def)
  next
    case (Some e)
    with assms Cons have "r = max t (t_begin e)" by (auto simp: nextTimeWithEvent_def)
    then show ?thesis by simp
  qed
qed

lemma nextVisibility_float_exact: "nextVisibility_float (\<lambda>x. x) s e t0 = nextVisibility s e t0"
  by (cases "slots_index s (link_addr e)")
     (auto simp: nextVisibility_float_def nextVisibility_def int_of_quotient_def int_cast_def)






subsection \<open>nextCommunication and the purity of the queries\<close>

lemma skip_blocked_ge:
  assumes p: "0 < getPeriod edge" and c: "cache_nonneg search"
    and sk: "skip_blocked search edge t = Inr t'"
  shows "t \<le> t'"
proof (cases "isBlocked edge t")
  case False
  with sk show ?thesis by (simp add: skip_blocked_def)
next
  case True
  let ?rel = "fmodf t (getPeriod edge)"
  have lt: "?rel < getPeriod edge" by (rule fmodf_less[OF p])
  show ?thesis
  proof (cases search)
    case None
    with sk True lt show ?thesis
      by (auto simp: skip_blocked_def Let_def split: if_splits)
  next
    case (Some tline)
    with sk True obtain tn where tn: "nextTimeWithEvent tline ?rel True = Some tn"
      and t': "t' = (if tn < ?rel then t + (tn + getPeriod edge - ?rel) else t + (tn - ?rel))"
      by (auto simp: skip_blocked_def Let_def split: option.splits if_splits)
    show ?thesis
    proof (cases "tn < ?rel")
      case True
      with nextTimeWithEvent_result[OF tn] c Some have "0 \<le> tn"
        by (auto simp: cache_nonneg_def list_all_iff)
      with True lt t' show ?thesis by simp
    next
      case False
      with t' show ?thesis by simp
    qed
  qed
qed


lemma same_view_refl: "same_view s s"
  by (simp add: same_view_def)

lemma same_view_trans: "same_view s s' \<Longrightarrow> same_view s' s'' \<Longrightarrow> same_view s s''"
  by (simp add: same_view_def)

lemma same_view_slots_index: "same_view s (snd (slots_index s k))"
  by (auto simp: same_view_def slots_index_def slots_of_def orientation_of_def split: option.splits)

lemma same_view_orientation_index: "same_view s (snd (orientation_index s k))"
  by (auto simp: same_view_def orientation_index_def slots_of_def orientation_of_def
      split: option.splits)

lemma orientation_index_fst: "fst (orientation_index s k) = orientation_of s k"
  by (simp add: orientation_index_def orientation_of_def split: option.splits)

lemma orientation_index_slots:
  "edge_time_slots (snd (orientation_index s k)) = edge_time_slots s"
  "step_size (snd (orientation_index s k)) = step_size s"
  by (simp_all add: orientation_index_def split: option.splits)

lemma slots_index_lookup:
  "edge_time_slots (snd (slots_index s k)) k = Some (slots_of s k)"
  by (simp add: slots_index_def slots_of_def split: option.splits)

lemma same_view_touched: "same_view s (touched s e)"
  unfolding touched_def
  by (blast intro: same_view_trans same_view_slots_index same_view_orientation_index)

lemma nextCommunication_unfold:
  "nextCommunication s e t0 =
     (case visibility_time (slots_of s (link_addr e)) (getPeriod e) t0 of
        Inl f \<Rightarrow> Some (Inl f)
      | Inr PInf \<Rightarrow> Some (Inr (PInf, snd (slots_index s (link_addr e))))
      | Inr (Fin t_visible) \<Rightarrow>
          if canAlign e (orientation_of s (v1_addr e)) (orientation_of s (v2_addr e)) t_visible
          then Some (Inr (Fin t_visible, touched s e))
          else map_option (map_sum id (\<lambda>t. (t, touched s e)))
                 (search_loop (step_size s) (Some (slots_of s (link_addr e))) e
                    (orientation_of s (v1_addr e)) (orientation_of s (v2_addr e))
                    (search_bound e t0) t_visible))"
proof -
  let ?s1 = "snd (slots_index s (link_addr e))"
  let ?s2 = "snd (orientation_index ?s1 (v1_addr e))"
  have o1: "fst (orientation_index ?s1 (v1_addr e)) = orientation_of s (v1_addr e)"
    using same_view_slots_index[of s "link_addr e"]
    by (simp add: orientation_index_fst same_view_def)
  have o2: "fst (orientation_index ?s2 (v2_addr e)) = orientation_of s (v2_addr e)"
    using same_view_trans[OF same_view_slots_index same_view_orientation_index,
        of s "link_addr e" "v1_addr e"]
    by (simp add: orientation_index_fst same_view_def)
  have st: "step_size (touched s e) = step_size s"
    using same_view_touched[of s e] by (simp add: same_view_def)
  have lk: "edge_time_slots (touched s e) (link_addr e) = Some (slots_of s (link_addr e))"
    by (simp add: touched_def orientation_index_slots slots_index_lookup)
  show ?thesis
    by (cases "orientation_index ?s1 (v1_addr e)"; cases "orientation_index ?s2 (v2_addr e)")
       (use o1 o2 st lk in \<open>auto simp: nextCommunication_def nextVisibility_value Let_def
          touched_def search_bound_def split: sum.splits flt.splits\<close>)
qed

lemma nextCommunication_value:
  "map_option (map_sum id fst) (nextCommunication s e t0) =
     communication_time (step_size s) (slots_of s (link_addr e))
       (orientation_of s (v1_addr e)) (orientation_of s (v2_addr e)) e t0"
  by (auto simp: nextCommunication_unfold communication_time_def option.map_comp comp_def
      sum.map_comp sum.map_ident option.map_ident split: sum.splits flt.splits)

lemma map_sum_eq_Inr: "map_sum f g z = Inr y \<longleftrightarrow> (\<exists>x. z = Inr x \<and> g x = y)"
  by (cases z) auto

lemma nextCommunication_state:
  assumes "nextCommunication s e t0 = Some (Inr (r, s'))"
  shows "same_view s s'"
  using assms same_view_touched[of s e] same_view_slots_index[of s "link_addr e"]
  by (auto simp: nextCommunication_unfold map_sum_eq_Inr split: sum.splits flt.splits if_splits)

lemma nextVisibility_state:
  assumes "nextVisibility s e t0 = Inr (r, s')"
  shows "same_view s s'"
  using assms same_view_slots_index[of s "link_addr e"]
  by (cases "visibility_time (slots_of s (link_addr e)) (getPeriod e) t0")
     (auto simp: nextVisibility_value)

lemma nextVisibility_answer:
  "map_sum id fst (nextVisibility s e t0) = visibility_time (slots_of s (link_addr e)) (getPeriod e) t0"
  by (cases "visibility_time (slots_of s (link_addr e)) (getPeriod e) t0")
     (auto simp: nextVisibility_value)

lemma lowerBound_loop_view:
  assumes "same_view s s'"
  shows "map_sum id fst (lowerBound_loop s' es lb) = map_sum id fst (lowerBound_loop s es lb)"
  using assms
proof (induction es arbitrary: s s' lb)
  case Nil
  then show ?case by simp
next
  case (Cons e es)
  have eq: "visibility_time (slots_of s' (link_addr e)) (getPeriod e) 0
          = visibility_time (slots_of s (link_addr e)) (getPeriod e) 0"
    using Cons.prems by (simp add: same_view_def)
  show ?case
  proof (cases "visibility_time (slots_of s (link_addr e)) (getPeriod e) 0")
    case (Inl f)
    with eq show ?thesis by (simp add: nextVisibility_value)
  next
    case (Inr v)
    have "same_view (snd (slots_index s (link_addr e))) (snd (slots_index s' (link_addr e)))"
      using Cons.prems same_view_slots_index[of s "link_addr e"]
        same_view_slots_index[of s' "link_addr e"]
      by (simp add: same_view_def)
    from Cons.IH[OF this] Inr eq show ?thesis
      by (simp add: nextVisibility_value)
  qed
qed

lemma answers_of_view:
  assumes "same_view s s'"
  shows "map_sum id fst (nextVisibility s' e t) = map_sum id fst (nextVisibility s e t)"
    and "map_option (map_sum id fst) (nextCommunication s' e t)
           = map_option (map_sum id fst) (nextCommunication s e t)"
    and "map_sum id fst (lowerBound s') = map_sum id fst (lowerBound s)"
  using assms lowerBound_loop_view[OF assms]
  by (simp_all add: nextVisibility_answer nextCommunication_value lowerBound_def same_view_def)





lemma search_loop_never:
  assumes nb: "\<forall>t. \<not> isBlocked edge t" and na: "\<forall>t. \<not> canAlign edge sat1 sat2 t"
  shows "search_loop step search edge sat1 sat2 PInf t = None"
proof (rule ccontr)
  assume "search_loop step search edge sat1 sat2 PInf t \<noteq> None"
  then obtain y where y: "search_loop step search edge sat1 sat2 PInf t = Some y" by auto
  have "bound = PInf \<longrightarrow> (\<forall>t. \<not> isBlocked edge t) \<longrightarrow> (\<forall>t. \<not> canAlign edge sat1 sat2 t) \<longrightarrow> False"
    if "search_loop step search edge sat1 sat2 bound t = Some y" for bound
  proof (rule search_loop.raw_induct[where P = "\<lambda>step search edge sat1 sat2 bound t y.
          bound = PInf \<longrightarrow> (\<forall>t. \<not> isBlocked edge t) \<longrightarrow> (\<forall>t. \<not> canAlign edge sat1 sat2 t) \<longrightarrow> False",
          OF _ that])
    fix loop :: "real \<Rightarrow> timeline option \<Rightarrow> 'a link \<Rightarrow> 'a \<Rightarrow> 'a \<Rightarrow> flt \<Rightarrow> real \<Rightarrow> (fault + flt) option"
    fix step search edge sat1 sat2 bound t y
    assume IH: "\<And>step search edge sat1 sat2 bound t y.
      loop step search edge sat1 sat2 bound t = Some y \<Longrightarrow>
      bound = PInf \<longrightarrow> (\<forall>t. \<not> isBlocked edge t) \<longrightarrow> (\<forall>t. \<not> canAlign edge sat1 sat2 t) \<longrightarrow> False"
    assume body: "(if flt_le (Fin t) bound
      then case skip_blocked search edge t of Inl f \<Rightarrow> Some (Inl f)
           | Inr t' \<Rightarrow>
               if canAlign edge sat1 sat2 t' \<and> \<not> isBlocked edge t'
               then Some (Inr (Fin t'))
               else loop step search edge sat1 sat2 bound (t' + step)
      else Some (Inr PInf)) = Some y"
    show "bound = PInf \<longrightarrow> (\<forall>t. \<not> isBlocked edge t) \<longrightarrow> (\<forall>t. \<not> canAlign edge sat1 sat2 t) \<longrightarrow> False"
    proof (intro impI)
      assume b: "bound = PInf" and nb: "\<forall>t. \<not> isBlocked edge t"
        and na: "\<forall>t. \<not> canAlign edge sat1 sat2 t"
      from body b nb na have "loop step search edge sat1 sat2 bound (t + step) = Some y"
        by (simp add: skip_blocked_def)
      from IH[OF this] b nb na show False by simp
    qed
  qed
  from this[OF y] nb na show False by simp
qed

text \<open>
  Claim C3 fails on the code. For a link whose first satellite has rotation speed 0,
  that is never blocked and that can never be aligned, \<open>t_max\<close> is \<open>INFINITY\<close>, the
  loop condition \<open>t <= time_0 + t_max\<close> holds for every finite \<open>t\<close>, and
  \<open>nextCommunication\<close> does not return.
\<close>

theorem zero_rotation_speed_diverges:
  "v1_rotation_speed stuck_link = 0 \<and> nextCommunication stuck_solver stuck_link 0 = None"
proof -
  have f: "link_addr stuck_link = 103" "getPeriod stuck_link = 10"
    "v1_rotation_speed stuck_link = 0" "v2_rotation_speed stuck_link = 1"
    "canAlign stuck_link o1 o2 t = False" "isBlocked stuck_link t = False" for o1 o2 t
    by (simp_all add: stuck_link_def)
  have sl: "slots_of stuck_solver 103 = [\<lparr>t_begin = 0, t_end = 10\<rparr>]"
    by (simp add: slots_of_def stuck_solver_def)
  have v: "visibility_time [\<lparr>t_begin = 0, t_end = 10\<rparr>] 10 0 = Inr (Fin 0)"
    by (simp add: visibility_time_def int_of_quotient_zero fmodf_zero nextTimeWithEvent_def)
  have b: "search_bound stuck_link 0 = PInf"
    by (simp add: search_bound_def f pi_over_def flt_max_def)
  have "search_loop step search stuck_link o1 o2 PInf t = None" for step search o1 o2 t
    by (rule search_loop_never) (simp_all add: f)
  then show ?thesis
    using v b by (simp add: nextCommunication_unfold f sl)
qed

text \<open>
  Claim C9. The answers of \<open>nextVisibility\<close> and \<open>nextCommunication\<close> depend on the
  solver only through what it holds for the link (its cache, with a missing entry read as
  empty) and for the satellites (their orientation, with a missing entry read as the
  default), and through its step size: two solver states with the same view give the same
  answers. A call that returns leaves this view as it was, so every later
  \<open>nextVisibility\<close>, \<open>nextCommunication\<close> and \<open>lowerBound\<close> answers as it would
  have before the call. The state itself may change: \<open>operator[]\<close> stores a default
  entry for a key it does not find.
\<close>

theorem queries_are_pure:
  "(same_view s s' \<longrightarrow>
      map_sum id fst (nextVisibility s' e t) = map_sum id fst (nextVisibility s e t) \<and>
      map_option (map_sum id fst) (nextCommunication s' e t)
        = map_option (map_sum id fst) (nextCommunication s e t)) \<and>
   (nextVisibility s e0 t0 = Inr (r, s1) \<or> nextCommunication s e0 t0 = Some (Inr (r, s1)) \<longrightarrow>
      same_view s s1 \<and>
      map_sum id fst (nextVisibility s1 e t) = map_sum id fst (nextVisibility s e t) \<and>
      map_option (map_sum id fst) (nextCommunication s1 e t)
        = map_option (map_sum id fst) (nextCommunication s e t) \<and>
      map_sum id fst (lowerBound s1) = map_sum id fst (lowerBound s))"
proof (intro conjI impI)
  assume v: "same_view s s'"
  from answers_of_view[OF v]
  show "map_sum id fst (nextVisibility s' e t) = map_sum id fst (nextVisibility s e t)"
    and "map_option (map_sum id fst) (nextCommunication s' e t)
        = map_option (map_sum id fst) (nextCommunication s e t)"
    by simp_all
next
  assume "nextVisibility s e0 t0 = Inr (r, s1) \<or> nextCommunication s e0 t0 = Some (Inr (r, s1))"
  then have v: "same_view s s1"
    using nextVisibility_state nextCommunication_state by blast
  then show "same_view s s1" .
  from answers_of_view[OF v]
  show "map_sum id fst (nextVisibility s1 e t) = map_sum id fst (nextVisibility s e t)"
    and "map_option (map_sum id fst) (nextCommunication s1 e t)
        = map_option (map_sum id fst) (nextCommunication s e t)"
    and "map_sum id fst (lowerBound s1) = map_sum id fst (lowerBound s)"
    by simp_all
qed

theorem queries_are_pure_witness:
  "nextVisibility uncached_solver link_a 0
     = Inr (PInf, uncached_solver\<lparr>edge_time_slots := [100 \<mapsto> []]\<rparr>) \<and>
   edge_time_slots uncached_solver 100 = None \<and>
   same_view uncached_solver (uncached_solver\<lparr>edge_time_slots := [100 \<mapsto> []]\<rparr>) \<and>
   map_sum id fst (nextVisibility (uncached_solver\<lparr>edge_time_slots := [100 \<mapsto> []]\<rparr>) link_a 0)
     = Inr PInf \<and>
   map_option (map_sum id fst)
     (nextCommunication (uncached_solver\<lparr>edge_time_slots := [100 \<mapsto> []]\<rparr>) link_a 0)
     = Some (Inr PInf)"
proof -
  let ?s1 = "uncached_solver\<lparr>edge_time_slots := [100 \<mapsto> []]\<rparr>"
  have f: "link_addr link_a = 100" by (simp add: link_a_def)
  have n: "edge_time_slots uncached_solver 100 = None"
    by (simp add: uncached_solver_def)
  have si: "slots_index uncached_solver 100 = ([], ?s1)"
    by (simp add: slots_index_def uncached_solver_def)
  have nv: "nextVisibility uncached_solver link_a 0 = Inr (PInf, ?s1)"
    by (simp add: nextVisibility_def f si)
  have a: "map_sum id fst (nextVisibility uncached_solver link_a 0) = Inr PInf"
    by (simp add: nv)
  have c: "map_option (map_sum id fst) (nextCommunication uncached_solver link_a 0) = Some (Inr PInf)"
    by (simp add: nextCommunication_def nv)
  from queries_are_pure[of uncached_solver uncached_solver link_a 0 link_a 0 PInf ?s1] nv a c n
  show ?thesis by (simp add: same_view_refl)
qed

lemma search_loop_terminates_aux:
  assumes st: "0 < step" and p: "0 < getPeriod edge" and c: "cache_nonneg search"
  shows "b - t < real n * step \<Longrightarrow> \<exists>y. search_loop step search edge sat1 sat2 (Fin b) t = Some y"
proof (induction n arbitrary: t)
  case 0
  then have "\<not> flt_le (Fin t) (Fin b)" by simp
  then show ?case by (subst search_loop.simps) simp
next
  case (Suc n)
  show ?case
  proof (cases "flt_le (Fin t) (Fin b)")
    case False
    then show ?thesis by (subst search_loop.simps) simp
  next
    case True
    show ?thesis
    proof (cases "skip_blocked search edge t")
      case (Inl f)
      with True show ?thesis by (subst search_loop.simps) simp
    next
      case (Inr t')
      from skip_blocked_ge[OF p c Inr] have le: "t \<le> t'" .
      have "b - (t' + step) < real n * step"
        using Suc.prems le by (simp add: algebra_simps)
      from Suc.IH[OF this] obtain y where
        "search_loop step search edge sat1 sat2 (Fin b) (t' + step) = Some y" by blast
      with True Inr show ?thesis by (subst search_loop.simps) simp
    qed
  qed
qed

text \<open>
  With a finite bound, a positive step and a positive period the search loop returns.
\<close>

lemma search_loop_terminates:
  assumes st: "0 < step" and p: "0 < getPeriod edge" and c: "cache_nonneg search"
  shows "\<exists>y. search_loop step search edge sat1 sat2 (Fin b) t = Some y"
proof -
  obtain n :: nat where "(b - t) / step < real n"
    using reals_Archimedean2 by blast
  then have "b - t < real n * step"
    using st by (simp add: pos_divide_less_eq)
  from search_loop_terminates_aux[OF st p c this] show ?thesis .
qed

lemma nextCommunication_returns:
  assumes st: "0 < step_size s" and p: "0 < getPeriod e"
    and nn: "\<forall>ev\<in>set (slots_of s (link_addr e)). 0 \<le> t_begin ev"
    and r1: "v1_rotation_speed e \<noteq> 0" and r2: "v2_rotation_speed e \<noteq> 0"
  shows "\<exists>y. nextCommunication s e t0 = Some y"
proof -
  have "\<exists>b. search_bound e t0 = Fin b"
    using r1 r2 by (simp add: search_bound_def pi_over_def flt_max_def)
  then obtain b where b: "search_bound e t0 = Fin b" ..
  have c: "cache_nonneg (Some (slots_of s (link_addr e)))"
    using nn by (simp add: cache_nonneg_def list_all_iff)
  from search_loop_terminates[OF st p c] b show ?thesis
    by (auto simp: nextCommunication_unfold split: sum.splits flt.splits)
qed

subsection \<open>The sphere intersection test\<close>

lemma dot_pos:
  assumes "v \<noteq> (0, 0, 0)"
  shows "0 < dot v v"
proof -
  obtain x y z where v: "v = (x, y, z)" by (cases v)
  have nn: "0 \<le> x * x" "0 \<le> y * y" "0 \<le> z * z" by simp_all
  from assms v have "x \<noteq> 0 \<or> y \<noteq> 0 \<or> z \<noteq> 0" by simp
  then have "0 < x * x \<or> 0 < y * y \<or> 0 < z * z"
    by (auto simp: zero_less_mult_iff)
  with nn have "0 < x * x + y * y + z * z" by linarith
  then show ?thesis by (simp add: v dot_def)
qed

lemma normalize_unit:
  assumes "v \<noteq> (0, 0, 0)"
  shows "dot (normalize v) (normalize v) = 1"
proof -
  obtain x y z where v: "v = (x, y, z)" by (cases v)
  have pos: "0 < dot v v" by (rule dot_pos[OF assms])
  define r where "r = sqrt (dot v v)"
  have rr: "r * r = dot v v" and r0: "r \<noteq> 0"
    using pos by (simp_all add: r_def)
  have n: "normalize v = (x * (1 / r), y * (1 / r), z * (1 / r))"
    by (simp add: normalize_def r_def v)
  have "dot (normalize v) (normalize v) = (x * x + y * y + z * z) / (r * r)"
    using r0 by (simp add: n dot_def field_simps)
  also have "\<dots> = dot v v / (r * r)" by (simp add: v dot_def)
  also have "\<dots> = 1" using rr pos by simp
  finally show ?thesis .
qed

lemma vsub_nonzero: "sat1 \<noteq> sat2 \<Longrightarrow> vsub sat2 sat1 \<noteq> (0, 0, 0)"
  by (cases sat1; cases sat2) (auto simp: vsub_def)

lemma hits_sphere_at_iff:
  assumes "sat1 \<noteq> sat2"
  shows "hits_sphere_at radius sat1 sat2 x \<longleftrightarrow> (x + ray_a sat1 sat2)\<^sup>2 = ray_discr radius sat1 sat2"
proof -
  obtain px py pz where p: "sat1 = (px, py, pz)" by (cases sat1)
  obtain dx dy dz where d: "normalize (vsub sat2 sat1) = (dx, dy, dz)"
    by (cases "normalize (vsub sat2 sat1)")
  have u: "dx * dx + dy * dy + dz * dz = 1"
    using normalize_unit[OF vsub_nonzero[OF assms]] by (simp add: d dot_def)
  have rp: "ray_point sat1 sat2 x = (px + x * dx, py + x * dy, pz + x * dz)"
    using d by (simp add: ray_point_def p)
  have "dot (ray_point sat1 sat2 x) (ray_point sat1 sat2 x)
      = (px * px + py * py + pz * pz) + 2 * x * (dx * px + dy * py + dz * pz)
          + x * x * (dx * dx + dy * dy + dz * dz)"
    by (simp add: rp dot_def algebra_simps)
  then have "dot (ray_point sat1 sat2 x) (ray_point sat1 sat2 x)
      = (px * px + py * py + pz * pz) + 2 * x * (dx * px + dy * py + dz * pz) + x * x"
    by (simp add: u)
  moreover have "ray_a sat1 sat2 = dx * px + dy * py + dz * pz"
    using d by (simp add: ray_a_def p dot_def vsub_def)
  moreover have "dot (vsub sat1 (0, 0, 0)) (vsub sat1 (0, 0, 0)) = px * px + py * py + pz * pz"
    by (simp add: p dot_def vsub_def)
  ultimately show ?thesis
    by (simp add: hits_sphere_at_def ray_discr_def power2_eq_square algebra_simps)
qed

lemma sphere_test_discr:
  assumes "sat1 \<noteq> sat2" "ray_discr radius_earth sat1 sat2 \<le> 0"
  shows "\<not> sphere_test sat1 sat2"
  using assms vsub_nonzero[OF assms(1)]
  by (simp add: sphere_test_def Let_def ray_a_def ray_discr_def)

lemma sqrt_examples: "sqrt 67108864 = 8192"
  using real_sqrt_abs[of 8192] by simp

lemma sphereIntersection_ignores_radius:
  "sphereIntersection (edge\<lparr>link_radius := r\<rparr>) time = sphereIntersection edge time"
  by (simp add: sphereIntersection_def)

text \<open>
  Claim C2 fails on the code: the test does not use the radius of the link's central mass
  but the constant 6378. For a central mass of radius 7000 and the satellites at
  \<open>(-4096, 0, 6500)\<close> and \<open>(4096, 0, 6500)\<close> the line between them
  passes the centre at distance 6500: the ray-sphere quadratic for the given radius has the
  two real roots \<open>4096 \<plusminus> sqrt 6750000\<close>, both between 0 and the
  distance 8192 of the satellites, so the link is blocked in the words of the claim. The
  code computes the discriminant for the radius 6378, which is \<open>-1571116\<close>,
  and returns false. At this input every operation of the source is exact in single
  precision (all intermediate values are floats), so that the exact arithmetic of the
  model is that of the code.
\<close>

theorem hard_coded_radius:
  "link_radius link_g = 7000 \<and>
   blocked_claimed (link_radius link_g) (v1_position link_g 0) (v2_position link_g 0) \<and>
   \<not> sphereIntersection link_g 0"
proof -
  let ?p = "(- 4096, 0, 6500) :: vec3" and ?q = "(4096, 0, 6500) :: vec3"
  have ne: "?p \<noteq> ?q" by simp
  have a: "ray_a ?p ?q = - 4096"
    by (simp add: ray_a_def normalize_def vsub_def dot_def sqrt_examples)
  have d: "ray_discr 7000 ?p ?q = 6750000" "ray_discr radius_earth ?p ?q = - 1571116"
    by (simp_all add: ray_discr_def a vsub_def dot_def radius_earth_def)
  have h: "hits_sphere_at 7000 ?p ?q x \<longleftrightarrow> (x - 4096)\<^sup>2 = 6750000" for x
    by (simp add: hits_sphere_at_iff[OF ne] a d)
  have l: "vlength (vsub ?p ?q) = 8192"
    by (simp add: vlength_def vsub_def dot_def sqrt_examples)
  have s: "(sqrt 6750000)\<^sup>2 = 6750000" "0 \<le> sqrt 6750000" by simp_all
  have r1: "hits_sphere_at 7000 ?p ?q (4096 + sqrt 6750000)"
    and r2: "hits_sphere_at 7000 ?p ?q (4096 - sqrt 6750000)"
    using s(1) by (simp_all add: h power2_commute)
  have "\<exists>x. hits_sphere_at 7000 ?p ?q x" using r1 by blast
  moreover have "\<not> (\<forall>x. hits_sphere_at 7000 ?p ?q x \<longrightarrow> x < 0)"
    using r1 s(2) by (intro notI) (smt (verit))
  moreover have "\<not> (\<forall>x. hits_sphere_at 7000 ?p ?q x \<longrightarrow> vlength (vsub ?p ?q) \<le> x)"
    using r2 s(2) l by (intro notI) (smt (verit))
  ultimately have "blocked_claimed 7000 ?p ?q" by (simp add: blocked_claimed_def)
  moreover have "\<not> sphere_test ?p ?q"
    by (rule sphere_test_discr[OF ne]) (simp add: d)
  ultimately show ?thesis
    by (simp add: sphereIntersection_def link_g_def)
qed

theorem hard_coded_radius_witness:
  "blocked_claimed 7000 (- 4096, 0, 6500) (4096, 0, 6500) \<and>
   \<not> sphere_test (- 4096, 0, 6500) (4096, 0, 6500)"
  using hard_coded_radius by (simp add: link_g_def sphereIntersection_def)

subsection \<open>Building the cache\<close>

lemma sample_result_beyond:
  assumes "0 < step" "bound < t"
  shows "sample_result Q step t bound shift PInf"
proof -
  have "bound < t + real j * step" for j
    using assms by (smt (verit) mult_nonneg_nonneg of_nat_0_le_iff)
  then have "\<not> t + real j * step \<le> bound" for j
    by (simp add: not_le)
  then show ?thesis
    by (simp add: sample_result_def no_sample_def)
qed

lemma sample_result_here:
  assumes "Q t" "t \<le> bound"
  shows "sample_result Q step t bound shift (Fin (t - shift))"
  using assms by (auto simp: sample_result_def first_sample_def intro!: exI[of _ 0])

lemma sample_result_later:
  assumes "\<not> Q t" and r: "sample_result Q step (t + step) bound shift r"
  shows "sample_result Q step t bound shift r"
proof (cases r)
  case (Fin x)
  with r obtain k where k: "x = t + step + real k * step - shift"
      "first_sample Q step (t + step) bound k"
    by (auto simp: sample_result_def)
  have sh: "t + step + real j * step = t + real (Suc j) * step" for j
    by (simp add: algebra_simps)
  have "first_sample Q step t bound (Suc k)"
    unfolding first_sample_def
  proof (intro conjI allI impI)
    show "Q (t + real (Suc k) * step)" "t + real (Suc k) * step \<le> bound"
      using k(2) by (simp_all add: first_sample_def sh)
    fix j assume "j < Suc k"
    then show "\<not> Q (t + real j * step)"
      using k(2) assms(1) by (cases j) (auto simp: first_sample_def sh)
  qed
  moreover have "x = t + real (Suc k) * step - shift"
    using k(1) by (simp add: sh)
  ultimately have "\<exists>k. x = t + real k * step - shift \<and> first_sample Q step t bound k"
    by blast
  then show ?thesis
    using Fin by (simp add: sample_result_def)
next
  case PInf
  have sh: "t + step + real j * step = t + real (Suc j) * step" for j
    by (simp add: algebra_simps)
  have "\<not> Q (t + real j * step)" if "t + real j * step \<le> bound" for j
    using that r PInf assms(1) by (cases j) (auto simp: sample_result_def no_sample_def sh)
  then show ?thesis
    using PInf by (simp add: sample_result_def no_sample_def)
qed

lemma real_Suc_times: "real (Suc k) * step = real k * step + step"
  by (simp add: distrib_right)

lemma archimedean_steps:
  assumes "0 < (step::real)"
  shows "\<exists>n::nat. x < real n * step"
proof -
  obtain n :: nat where "x / step < real n"
    using reals_Archimedean2 by blast
  then have "x < real n * step"
    using assms by (simp add: pos_divide_less_eq)
  then show ?thesis ..
qed

text \<open>
  The two sampling loops, started at a sample time \<open>m * step\<close>: when the rounding
  is exact on the sample times up to \<open>L\<close> and the bound of the loop plus one step
  is at most \<open>L\<close>, the loop returns, and what it returns is the first sample with
  the property it looks for.
\<close>

lemma findNextVisiblity_loop_result:
  assumes st: "0 < step"
    and ex: "\<forall>m::nat. real m * step \<le> L \<longrightarrow> rnd (real m * step) = real m * step"
    and bL: "rnd (t0 + getPeriod edge) + step \<le> L"
  shows "rnd (t0 + getPeriod edge) - real m * step < real n * step \<Longrightarrow>
         \<exists>r. findNextVisiblity_loop rnd step edge t0 (real m * step) = Some r \<and>
             sample_result (\<lambda>u. \<not> isBlocked edge u) step (real m * step)
               (rnd (t0 + getPeriod edge)) 0 r"
proof (induction n arbitrary: m)
  case 0
  then have b: "rnd (t0 + getPeriod edge) < real m * step" by simp
  then show ?case
    using sample_result_beyond[OF st b]
    by (subst findNextVisiblity_loop.simps) simp
next
  case (Suc n)
  let ?B = "rnd (t0 + getPeriod edge)" and ?t = "real m * step"
  show ?case
  proof (cases "?t \<le> ?B")
    case False
    then show ?thesis
      using sample_result_beyond[OF st, of ?B ?t]
      by (subst findNextVisiblity_loop.simps) simp
  next
    case True
    show ?thesis
    proof (cases "isBlocked edge ?t")
      case False
      with True sample_result_here[of "\<lambda>u. \<not> isBlocked edge u" ?t ?B step 0]
      show ?thesis
        by (subst findNextVisiblity_loop.simps) simp
    next
      case blocked: True
      have g: "?t + step = real (Suc m) * step" by (simp only: real_Suc_times)
      have "real (Suc m) * step \<le> L" using True bL g by linarith
      with ex have "rnd (real (Suc m) * step) = real (Suc m) * step" by blast
      then have nxt: "rnd (?t + step) = real (Suc m) * step" by (simp only: g)
      have "real (Suc n) * step = real n * step + step" by (rule real_Suc_times)
      with Suc.prems g have "?B - real (Suc m) * step < real n * step" by linarith
      from Suc.IH[OF this] obtain r where
        r: "findNextVisiblity_loop rnd step edge t0 (real (Suc m) * step) = Some r"
          "sample_result (\<lambda>u. \<not> isBlocked edge u) step (real (Suc m) * step) ?B 0 r"
        by blast
      from r(2) have "sample_result (\<lambda>u. \<not> isBlocked edge u) step (?t + step) ?B 0 r"
        by (simp only: g)
      from sample_result_later[of "\<lambda>u. \<not> isBlocked edge u" ?t, OF _ this] blocked
      have "sample_result (\<lambda>u. \<not> isBlocked edge u) step ?t ?B 0 r" by simp
      moreover have "findNextVisiblity_loop rnd step edge t0 ?t = Some r"
        using True blocked r(1) nxt by (subst findNextVisiblity_loop.simps) (simp only: if_True not_True_eq_False if_False)
      ultimately show ?thesis by blast
    qed
  qed
qed

lemma findLastVisible_loop_result:
  assumes st: "0 < step"
    and ex: "\<forall>m::nat. real m * step \<le> L \<longrightarrow> rnd (real m * step) = real m * step"
    and bL: "rnd (t0 + getPeriod edge) + step \<le> L"
  shows "rnd (t0 + getPeriod edge) - real m * step < real n * step \<Longrightarrow>
         0 < m \<or> \<not> isBlocked edge (real m * step) \<Longrightarrow>
         \<exists>r. findLastVisible_loop rnd step edge t0 (real m * step) = Some r \<and>
             sample_result (isBlocked edge) step (real m * step)
               (rnd (t0 + getPeriod edge)) step r"
proof (induction n arbitrary: m)
  case 0
  then have b: "rnd (t0 + getPeriod edge) < real m * step" by simp
  then show ?case
    using sample_result_beyond[OF st b]
    by (subst findLastVisible_loop.simps) simp
next
  case (Suc n)
  let ?B = "rnd (t0 + getPeriod edge)" and ?t = "real m * step"
  show ?case
  proof (cases "?t \<le> ?B")
    case False
    then show ?thesis
      using sample_result_beyond[OF st, of ?B ?t]
      by (subst findLastVisible_loop.simps) simp
  next
    case True
    show ?thesis
    proof (cases "isBlocked edge ?t")
      case blocked: True
      with Suc.prems(2) have "0 < m" by blast
      then obtain m' where m': "m = Suc m'" by (cases m) auto
      have g: "?t - step = real m' * step"
        using real_Suc_times[of m' step] m' by simp
      have "real m' * step \<le> L" using True bL g st by linarith
      with ex have "rnd (real m' * step) = real m' * step" by blast
      then have prev: "rnd (?t - step) = ?t - step" by (simp only: g)
      from True blocked sample_result_here[of "isBlocked edge" ?t ?B step step]
      have "sample_result (isBlocked edge) step ?t ?B step (Fin (?t - step))" by simp
      moreover have "findLastVisible_loop rnd step edge t0 ?t = Some (Fin (?t - step))"
        using True blocked prev by (subst findLastVisible_loop.simps) simp
      ultimately show ?thesis by blast
    next
      case False
      have g: "?t + step = real (Suc m) * step" by (simp only: real_Suc_times)
      have "real (Suc m) * step \<le> L" using True bL g by linarith
      with ex have "rnd (real (Suc m) * step) = real (Suc m) * step" by blast
      then have nxt: "rnd (?t + step) = real (Suc m) * step" by (simp only: g)
      have "real (Suc n) * step = real n * step + step" by (rule real_Suc_times)
      with Suc.prems(1) g have "?B - real (Suc m) * step < real n * step" by linarith
      from Suc.IH[OF this] obtain r where
        r: "findLastVisible_loop rnd step edge t0 (real (Suc m) * step) = Some r"
          "sample_result (isBlocked edge) step (real (Suc m) * step) ?B step r"
        by blast
      from r(2) have "sample_result (isBlocked edge) step (?t + step) ?B step r"
        by (simp only: g)
      from sample_result_later[OF False this]
      have "sample_result (isBlocked edge) step ?t ?B step r" .
      moreover have "findLastVisible_loop rnd step edge t0 ?t = Some r"
        using True False r(1) nxt by (subst findLastVisible_loop.simps) (simp only: if_True if_False)
      ultimately show ?thesis by blast
    qed
  qed
qed

lemma findNextVisiblity_result:
  assumes "0 < step_size s"
    and "\<forall>m::nat. real m * step_size s \<le> L \<longrightarrow> rnd (real m * step_size s) = real m * step_size s"
    and "rnd (real m * step_size s + getPeriod edge) + step_size s \<le> L"
  shows "\<exists>r. findNextVisiblity rnd s edge (real m * step_size s) = Some r \<and>
             sample_result (\<lambda>u. \<not> isBlocked edge u) (step_size s) (real m * step_size s)
               (rnd (real m * step_size s + getPeriod edge)) 0 r"
proof -
  obtain n :: nat where
    "rnd (real m * step_size s + getPeriod edge) - real m * step_size s < real n * step_size s"
    using archimedean_steps[OF assms(1)] by blast
  from findNextVisiblity_loop_result[OF assms this] show ?thesis
    by (simp add: findNextVisiblity_def)
qed

lemma findLastVisible_result:
  assumes "0 < step_size s"
    and "\<forall>m::nat. real m * step_size s \<le> L \<longrightarrow> rnd (real m * step_size s) = real m * step_size s"
    and "rnd (real m * step_size s + getPeriod edge) + step_size s \<le> L"
    and "\<not> isBlocked edge (real m * step_size s)"
  shows "\<exists>r. findLastVisible rnd s edge (real m * step_size s) = Some r \<and>
             sample_result (isBlocked edge) (step_size s) (real m * step_size s)
               (rnd (real m * step_size s + getPeriod edge)) (step_size s) r"
proof -
  obtain n :: nat where
    "rnd (real m * step_size s + getPeriod edge) - real m * step_size s < real n * step_size s"
    using archimedean_steps[OF assms(1)] by blast
  from findLastVisible_loop_result[OF assms(1,2,3) this] assms(4) show ?thesis
    by (simp add: findLastVisible_def)
qed

lemma grid_split:
  assumes "0 < step" "real m * step \<le> real j * step"
  shows "m \<le> j" and "real j * step = real m * step + real (j - m) * step"
proof -
  from assms have "real m \<le> real j" by (simp only: mult_le_cancel_right_pos)
  then show mj: "m \<le> j" by (simp only: of_nat_le_iff)
  then have "real j = real m + real (j - m)" by (simp only: of_nat_add[symmetric] le_add_diff_inverse)
  then have "real j * step = (real m + real (j - m)) * step" by (rule arg_cong)
  then show "real j * step = real m * step + real (j - m) * step"
    by (simp only: distrib_right)
qed

lemma grid_less:
  assumes "0 < step" "t + real a * step < t + real b * step"
  shows "a < b"
proof -
  from assms(2) have "real a * step < real b * step" by linarith
  with assms(1) have "real a < real b" by (simp only: mult_less_cancel_right_pos)
  then show ?thesis by (simp only: of_nat_less_iff)
qed

lemma scan_exit:
  assumes "scan_inv step edge c t"
    and "\<forall>j::nat. t \<le> real j * step \<and> real j * step < getPeriod edge \<longrightarrow> isBlocked edge (real j * step)"
  shows "visibility_cache step edge c"
proof -
  have "covered c (real j * step)"
    if "real j * step < getPeriod edge" "\<not> isBlocked edge (real j * step)" for j
  proof (cases "real j * step < t")
    case True
    with assms(1) that show ?thesis by (simp add: scan_inv_def)
  next
    case False
    with assms(2) that show ?thesis by auto
  qed
  moreover have "list_all (unblocked_run step edge) c"
    using assms(1) by (simp add: scan_inv_def list_all_iff)
  ultimately show ?thesis
    using assms(1) by (simp add: visibility_cache_def scan_inv_def)
qed

lemma blocked_before_first:
  assumes st: "0 < step" and g: "t = real m * step"
    and f: "first_sample (\<lambda>u. \<not> isBlocked edge u) step t bound k"
    and j: "t \<le> real j * step" "real j * step < t + real k * step"
  shows "isBlocked edge (real j * step)"
proof -
  from j(1) g have le: "real m * step \<le> real j * step" by simp
  from grid_split(2)[OF st le] g have e: "real j * step = t + real (j - m) * step" by simp
  from j(2) e have "t + real (j - m) * step < t + real k * step" by linarith
  from grid_less[OF st this] have "j - m < k" .
  with f have "isBlocked edge (t + real (j - m) * step)" by (simp add: first_sample_def)
  then show ?thesis by (simp only: e)
qed

lemma blocked_without_sample:
  assumes st: "0 < step" and g: "t = real m * step"
    and f: "no_sample (\<lambda>u. \<not> isBlocked edge u) step t bound"
    and j: "t \<le> real j * step" "real j * step \<le> bound"
  shows "isBlocked edge (real j * step)"
proof -
  from j(1) g have le: "real m * step \<le> real j * step" by simp
  from grid_split(2)[OF st le] g have e: "real j * step = t + real (j - m) * step" by simp
  from j(2) e have "t + real (j - m) * step \<le> bound" by linarith
  with f have "isBlocked edge (t + real (j - m) * step)" by (simp add: no_sample_def)
  then show ?thesis by (simp only: e)
qed

lemma grid_le_pred:
  assumes "0 < step" "real j * step < real (Suc n) * step"
  shows "real j * step \<le> real n * step"
proof -
  from assms have "real j < real (Suc n)" by (simp only: mult_less_cancel_right_pos)
  then have "j < Suc n" by (simp only: of_nat_less_iff)
  then have "j \<le> n" by simp
  then have "real j \<le> real n" by (simp only: of_nat_le_iff)
  with assms(1) show ?thesis by (simp only: mult_le_cancel_right_pos)
qed

lemma covered_append: "covered (c @ [a]) x \<longleftrightarrow> covered c x \<or> (t_begin a \<le> x \<and> x \<le> t_end a)"
  by (simp add: covered_def list_ex_iff) blast

lemma scan_continue:
  assumes st: "0 < step" and inv: "scan_inv step edge c t" and tP: "t < getPeriod edge"
    and f1: "first_sample (\<lambda>u. \<not> isBlocked edge u) step t b1 k1"
    and tn: "tn = t + real k1 * step" and tnP: "tn < getPeriod edge"
    and r2: "sample_result (isBlocked edge) step tn b2 step r2"
    and b2: "getPeriod edge \<le> b2"
    and te: "te = clamp_end (getPeriod edge) r2"
  shows "scan_inv step edge (c @ [\<lparr>t_begin = tn, t_end = te\<rparr>]) (te + step)"
    and "t \<le> tn" and "tn \<le> te"
proof -
  let ?P = "getPeriod edge" and ?B = "isBlocked edge"
  from inv have "?P \<le> t \<or> ((\<exists>m::nat. t = real m * step) \<and> (t = 0 \<or> ?B t))"
    by (simp only: scan_inv_def)
  moreover from tP have "\<not> ?P \<le> t" by (simp only: not_le)
  ultimately have "(\<exists>m::nat. t = real m * step) \<and> (t = 0 \<or> ?B t)" by blast
  then obtain m :: nat where m: "t = real m * step" and t0: "t = 0 \<or> ?B t"
    by blast
  have k1nn: "0 \<le> real k1 * step" using st by simp
  show ttn: "t \<le> tn" using tn k1nn by linarith
  have "0 \<le> real m * step" using st by simp
  with m ttn have tnn: "0 \<le> tn" by linarith
  have nb: "\<not> ?B tn" using f1 tn by (simp add: first_sample_def)
  have gtn: "tn = real (m + k1) * step"
    using tn m by (simp add: distrib_right)
  have shape: "(te = ?P \<and> (\<forall>i::nat. tn + real i * step \<le> ?P \<longrightarrow> \<not> ?B (tn + real i * step)))
      \<or> (\<exists>k2::nat. te = tn + real k2 * step \<and> te < ?P \<and> ?B (te + step) \<and>
             (\<forall>i\<le>k2. \<not> ?B (tn + real i * step)))"
  proof (cases r2)
    case PInf
    with r2 have ns: "no_sample ?B step tn b2" by (simp add: sample_result_def)
    have "\<not> ?B (tn + real i * step)" if "tn + real i * step \<le> ?P" for i
    proof -
      from that b2 have "tn + real i * step \<le> b2" by linarith
      with ns show ?thesis by (simp add: no_sample_def)
    qed
    with PInf te show ?thesis by (simp add: clamp_end_def)
  next
    case (Fin x)
    with r2 obtain k2 where x: "x = tn + real k2 * step - step"
      and f2: "first_sample ?B step tn b2 k2"
      by (auto simp: sample_result_def)
    have "k2 \<noteq> 0"
    proof
      assume "k2 = 0"
      with f2 have "?B tn" by (simp add: first_sample_def)
      with nb show False by simp
    qed
    then obtain k2' where k2: "k2 = Suc k2'" by (cases k2) auto
    have e2: "real k2 * step = real k2' * step + step"
      using k2 by (simp only: real_Suc_times)
    have x': "x = tn + real k2' * step"
      using x e2 by linarith
    have "x + step = tn + real k2 * step"
      using x by linarith
    moreover have "?B (tn + real k2 * step)"
      using f2 by (simp only: first_sample_def)
    ultimately have b2: "?B (x + step)" by (simp only:)
    have run: "\<not> ?B (tn + real i * step)" if "i \<le> k2'" for i
      using f2 that k2 by (simp add: first_sample_def)
    show ?thesis
    proof (cases "?P \<le> x")
      case True
      then have teP: "te = ?P" using te Fin by (simp add: clamp_end_def)
      have "\<not> ?B (tn + real i * step)" if "tn + real i * step \<le> ?P" for i
      proof -
        from that True x' have "tn + real i * step \<le> tn + real k2' * step" by linarith
        then have "real i * step \<le> real k2' * step" by linarith
        with st have "real i \<le> real k2'" by (simp only: mult_le_cancel_right_pos)
        then have "i \<le> k2'" by (simp only: of_nat_le_iff)
        then show ?thesis by (rule run)
      qed
      with teP show ?thesis by simp
    next
      case False
      then have "te = x" using te Fin by (simp add: clamp_end_def)
      with x' b2 run False show ?thesis by auto
    qed
  qed
  show tnte: "tn \<le> te"
  proof -
    from shape show ?thesis
    proof
      assume "te = ?P \<and> (\<forall>i::nat. tn + real i * step \<le> ?P \<longrightarrow> \<not> ?B (tn + real i * step))"
      with tnP show ?thesis by simp
    next
      assume "\<exists>k2::nat. te = tn + real k2 * step \<and> te < ?P \<and> ?B (te + step) \<and>
             (\<forall>i\<le>k2. \<not> ?B (tn + real i * step))"
      then obtain k2 :: nat where "te = tn + real k2 * step" by blast
      moreover have "0 \<le> real k2 * step" using st by simp
      ultimately show ?thesis by linarith
    qed
  qed
  have teP: "te \<le> ?P" using shape by auto
  have samples: "\<not> ?B (tn + real i * step)" if "tn + real i * step \<le> te" for i
  proof -
    from shape show ?thesis
    proof
      assume "te = ?P \<and> (\<forall>i::nat. tn + real i * step \<le> ?P \<longrightarrow> \<not> ?B (tn + real i * step))"
      with that show ?thesis by simp
    next
      assume "\<exists>k2::nat. te = tn + real k2 * step \<and> te < ?P \<and> ?B (te + step) \<and>
             (\<forall>i\<le>k2. \<not> ?B (tn + real i * step))"
      then obtain k2 :: nat where k2: "te = tn + real k2 * step"
        "\<forall>i\<le>k2. \<not> ?B (tn + real i * step)" by blast
      from that k2(1) have "real i * step \<le> real k2 * step" by linarith
      with st have "real i \<le> real k2" by (simp only: mult_le_cancel_right_pos)
      then have "i \<le> k2" by (simp only: of_nat_le_iff)
      with k2(2) show ?thesis by simp
    qed
  qed
  have left: "tn = 0 \<or> ?B (tn - step)"
  proof (cases k1)
    case 0
    with tn have "tn = t" by simp
    with t0 nb show ?thesis by auto
  next
    case (Suc k1')
    with f1 have "?B (t + real k1' * step)" by (simp add: first_sample_def)
    moreover have "real k1 * step = real k1' * step + step"
      using Suc by (simp only: real_Suc_times)
    with tn have "tn - step = t + real k1' * step" by linarith
    ultimately have "?B (tn - step)" by (simp only:)
    then show ?thesis ..
  qed
  have right: "te = ?P \<or> ?B (te + step)" using shape by auto
  have sel: "t_begin \<lparr>t_begin = tn, t_end = te\<rparr> = tn" "t_end \<lparr>t_begin = tn, t_end = te\<rparr> = te"
    by simp_all
  have g': "\<exists>m::nat. tn = real m * step" using gtn by blast
  have run: "unblocked_run step edge \<lparr>t_begin = tn, t_end = te\<rparr>"
    unfolding unblocked_run_def sel using g' tnP tnte teP samples left right by blast
  have old: "list_all (\<lambda>a. unblocked_run step edge a \<and> t_end a < t) c"
    and sorted: "sorted_wrt (\<lambda>a b. t_end a < t_begin b) c"
    and cov: "\<forall>j::nat. real j * step < ?P \<and> real j * step < t \<and> \<not> ?B (real j * step)
          \<longrightarrow> covered c (real j * step)"
    using inv by (simp_all add: scan_inv_def)
  have before: "t_end a < tn" if "a \<in> set c" for a
  proof -
    from old that have "t_end a < t" by (simp add: list_all_iff)
    with ttn show ?thesis by linarith
  qed
  have s': "sorted_wrt (\<lambda>a b. t_end a < t_begin b) (c @ [\<lparr>t_begin = tn, t_end = te\<rparr>])"
    using sorted before by (simp add: sorted_wrt_append)
  have "unblocked_run step edge a \<and> t_end a < te + step" if "a \<in> set c" for a
  proof -
    from before[OF that] tnte st have "t_end a < te + step" by linarith
    with old that show ?thesis by (simp add: list_all_iff)
  qed
  moreover have "te < te + step" using st by linarith
  ultimately have l': "list_all (\<lambda>a. unblocked_run step edge a \<and> t_end a < te + step)
              (c @ [\<lparr>t_begin = tn, t_end = te\<rparr>])"
    using run by (simp add: list_all_iff)
  have c': "covered (c @ [\<lparr>t_begin = tn, t_end = te\<rparr>]) (real j * step)"
    if j: "real j * step < ?P" "real j * step < te + step" "\<not> ?B (real j * step)" for j
  proof (cases "real j * step < t")
    case True
    with cov j show ?thesis by (simp add: covered_append)
  next
    case False
    then have tj: "t \<le> real j * step" by simp
    have "tn \<le> real j * step"
    proof (rule ccontr)
      assume "\<not> tn \<le> real j * step"
      then have "real j * step < t + real k1 * step" using tn by simp
      from blocked_before_first[OF st m f1 tj this] j(3) show False by simp
    qed
    moreover have "real j * step \<le> te"
    proof -
      from shape show ?thesis
      proof
        assume "te = ?P \<and> (\<forall>i::nat. tn + real i * step \<le> ?P \<longrightarrow> \<not> ?B (tn + real i * step))"
        with j(1) show ?thesis by simp
      next
        assume "\<exists>k2::nat. te = tn + real k2 * step \<and> te < ?P \<and> ?B (te + step) \<and>
             (\<forall>i\<le>k2. \<not> ?B (tn + real i * step))"
        then obtain k2 :: nat where k2: "te = tn + real k2 * step" by blast
        have g: "te = real (m + k1 + k2) * step"
          using k2 gtn by (simp add: distrib_right)
        then have "te + step = real (Suc (m + k1 + k2)) * step"
          by (simp only: real_Suc_times)
        with j(2) have "real j * step < real (Suc (m + k1 + k2)) * step" by simp
        from grid_le_pred[OF st this] g show ?thesis by simp
      qed
    qed
    ultimately show ?thesis by (simp add: covered_append)
  qed
  have p': "?P \<le> te + step \<or> ((\<exists>m::nat. te + step = real m * step) \<and> (te + step = 0 \<or> ?B (te + step)))"
  proof -
    from shape show ?thesis
    proof
      assume "te = ?P \<and> (\<forall>i::nat. tn + real i * step \<le> ?P \<longrightarrow> \<not> ?B (tn + real i * step))"
      with st show ?thesis by simp
    next
      assume "\<exists>k2::nat. te = tn + real k2 * step \<and> te < ?P \<and> ?B (te + step) \<and>
             (\<forall>i\<le>k2. \<not> ?B (tn + real i * step))"
      then obtain k2 :: nat where k2: "te = tn + real k2 * step" "?B (te + step)" by blast
      have g: "te = real (m + k1 + k2) * step"
        using k2 gtn by (simp add: distrib_right)
      then have "te + step = real (Suc (m + k1 + k2)) * step"
        by (simp only: real_Suc_times)
      with k2(2) show ?thesis by blast
    qed
  qed
  show "scan_inv step edge (c @ [\<lparr>t_begin = tn, t_end = te\<rparr>]) (te + step)"
    unfolding scan_inv_def using s' l' c' p' by blast
qed

lemma frame_refl: "frame k s s"
  by (simp add: frame_def)

lemma frame_trans: "frame k s s' \<Longrightarrow> frame k s' s'' \<Longrightarrow> frame k s s''"
  by (simp add: frame_def)

lemma slots_insert_frame: "frame k s (slots_insert s k a)"
  by (auto simp: frame_def slots_insert_def slots_index_def slots_of_def split: option.splits)

lemma slots_of_insert:
  "slots_of (slots_insert s k a) k = timeline_insert a (slots_of s k)"
  by (auto simp: slots_insert_def slots_index_def slots_of_def split: option.splits)

lemma timeline_insert_append:
  "\<forall>b\<in>set c. t_begin b \<le> t_begin a \<Longrightarrow> timeline_insert a c = c @ [a]"
  by (induction c) auto

lemma createCache_edge_unfold:
  "createCache_edge rnd s edge t =
     (if t < getPeriod edge
      then Option.bind (findNextVisiblity rnd s edge t) (\<lambda>r1.
             case r1 of
               PInf \<Rightarrow> Some s
             | Fin tn \<Rightarrow>
                 if tn \<ge> getPeriod edge then Some s
                 else Option.bind (findLastVisible rnd s edge tn) (\<lambda>r2.
                        createCache_edge rnd
                          (slots_insert s (link_addr edge)
                             \<lparr>t_begin = tn, t_end = clamp_end (getPeriod edge) r2\<rparr>)
                          edge (rnd (clamp_end (getPeriod edge) r2 + step_size s))))
      else Some s)"
proof -
  have st: "step_size (slots_insert s k a) = step_size s" for k a
    using slots_insert_frame[of k s a] by (simp add: frame_def)
  show ?thesis
    by (subst createCache_edge.simps)
       (auto simp: Let_def clamp_end_def st split: Option.bind_splits flt.splits)
qed

lemma createCache_edge_total:
  assumes st: "0 < step" and mono: "mono rnd"
    and xs: "exact_sampling rnd step (getPeriod edge)"
  shows "getPeriod edge - t < real n * step \<Longrightarrow> step_size s = step \<Longrightarrow>
         scan_inv step edge (slots_of s (link_addr edge)) t \<Longrightarrow>
         \<exists>s'. createCache_edge rnd s edge t = Some s' \<and>
              visibility_cache step edge (slots_of s' (link_addr edge)) \<and>
              frame (link_addr edge) s s'"
proof (induction n arbitrary: s t)
  case 0
  then have b: "getPeriod edge < t" by simp
  have "visibility_cache step edge (slots_of s (link_addr edge))"
    using "0.prems"(3) b by (intro scan_exit) auto
  with b show ?case
    by (subst createCache_edge_unfold) (simp add: frame_refl)
next
  case (Suc n)
  let ?P = "getPeriod edge" and ?c = "slots_of s (link_addr edge)"
  define L where "L = rnd (?P + ?P) + step"
  have rP: "rnd ?P = ?P"
    and ex: "\<forall>m::nat. real m * step \<le> L \<longrightarrow> rnd (real m * step) = real m * step"
    using xs by (simp_all add: exact_sampling_def L_def)
  note inv = Suc.prems(3)
  have ss: "0 < step_size s" using st Suc.prems(2) by simp
  have exs: "\<forall>m::nat. real m * step_size s \<le> L \<longrightarrow> rnd (real m * step_size s) = real m * step_size s"
    using ex Suc.prems(2) by simp
  show ?case
  proof (cases "t < ?P")
    case False
    have "visibility_cache step edge ?c"
      using inv False by (intro scan_exit) auto
    with False show ?thesis
      by (subst createCache_edge_unfold) (simp add: frame_refl)
  next
    case tP: True
    from inv have "?P \<le> t \<or> ((\<exists>m::nat. t = real m * step) \<and> (t = 0 \<or> isBlocked edge t))"
      by (simp only: scan_inv_def)
    moreover from tP have "\<not> ?P \<le> t" by (simp only: not_le)
    ultimately obtain m :: nat where m: "t = real m * step" by blast
    have "0 \<le> real m * step" using st by simp
    with m have t0: "0 \<le> t" by linarith
    have P0: "0 < ?P" using tP t0 by linarith
    have bounds: "?P \<le> rnd (u + ?P)" "rnd (u + ?P) + step \<le> L" if "0 \<le> u" "u < ?P" for u
    proof -
      from that(1) have "?P \<le> u + ?P" by simp
      with mono have "rnd ?P \<le> rnd (u + ?P)" by (rule monoD)
      then show "?P \<le> rnd (u + ?P)" by (simp only: rP)
      from that(2) have "u + ?P \<le> ?P + ?P" by simp
      with mono have "rnd (u + ?P) \<le> rnd (?P + ?P)" by (rule monoD)
      then show "rnd (u + ?P) + step \<le> L" by (simp add: L_def)
    qed
    have PL: "?P + step \<le> L"
    proof -
      from P0 have "?P \<le> ?P + ?P" by simp
      with mono have "rnd ?P \<le> rnd (?P + ?P)" by (rule monoD)
      then show ?thesis by (simp add: L_def rP)
    qed
    let ?B1 = "rnd (t + ?P)"
    from findNextVisiblity_result[OF ss exs, of m edge] bounds(2)[OF t0 tP] m Suc.prems(2)
    obtain r1 where
      r1: "findNextVisiblity rnd s edge t = Some r1"
        "sample_result (\<lambda>u. \<not> isBlocked edge u) step t ?B1 0 r1"
      by auto
    show ?thesis
    proof (cases r1)
      case PInf
      with r1(2) have ns: "no_sample (\<lambda>u. \<not> isBlocked edge u) step t ?B1"
        by (simp add: sample_result_def)
      have "isBlocked edge (real j * step)" if "t \<le> real j * step" "real j * step < ?P" for j
      proof -
        from that bounds(1)[OF t0 tP] have "real j * step \<le> ?B1" by linarith
        from blocked_without_sample[OF st m ns that(1) this] show ?thesis .
      qed
      then have "visibility_cache step edge ?c"
        using inv by (intro scan_exit) auto
      with tP r1(1) PInf show ?thesis
        by (subst createCache_edge_unfold) (simp add: frame_refl)
    next
      case (Fin tn)
      with r1(2) obtain k1 where tn: "tn = t + real k1 * step"
        and f1: "first_sample (\<lambda>u. \<not> isBlocked edge u) step t ?B1 k1"
        by (auto simp: sample_result_def)
      show ?thesis
      proof (cases "?P \<le> tn")
        case True
        have "isBlocked edge (real j * step)" if "t \<le> real j * step" "real j * step < ?P" for j
        proof -
          from that True tn have "real j * step < t + real k1 * step" by linarith
          from blocked_before_first[OF st m f1 that(1) this] show ?thesis .
        qed
        then have "visibility_cache step edge ?c"
          using inv by (intro scan_exit) auto
        with tP r1(1) Fin True show ?thesis
          by (subst createCache_edge_unfold) (simp add: frame_refl)
      next
        case False
        then have tnP: "tn < ?P" by simp
        have gtn: "tn = real (m + k1) * step"
          using tn m by (simp add: distrib_right)
        have "0 \<le> real (m + k1) * step" using st by simp
        with gtn have tn0: "0 \<le> tn" by linarith
        have nb: "\<not> isBlocked edge tn" using f1 tn by (simp add: first_sample_def)
        let ?B2 = "rnd (tn + ?P)"
        from findLastVisible_result[OF ss exs, of "m + k1" edge] bounds(2)[OF tn0 tnP] nb gtn
          Suc.prems(2)
        obtain r2 where
          r2: "findLastVisible rnd s edge tn = Some r2"
            "sample_result (isBlocked edge) step tn ?B2 step r2"
          by auto
        define te where "te = clamp_end ?P r2"
        let ?a = "\<lparr>t_begin = tn, t_end = te\<rparr>"
        let ?s1 = "slots_insert s (link_addr edge) ?a"
        from scan_continue[OF st inv tP f1 tn tnP r2(2) bounds(1)[OF tn0 tnP] te_def]
        have inv': "scan_inv step edge (?c @ [?a]) (te + step)"
          and ttn: "t \<le> tn" and tnte: "tn \<le> te" by simp_all
        have "\<forall>b\<in>set ?c. t_begin b \<le> t_begin ?a"
        proof
          fix b assume b: "b \<in> set ?c"
          with inv have "unblocked_run step edge b" "t_end b < t"
            by (simp_all add: scan_inv_def list_all_iff)
          then have "t_begin b \<le> t_end b" "t_end b < t" by (simp_all add: unblocked_run_def)
          with ttn show "t_begin b \<le> t_begin ?a" by simp
        qed
        then have sl: "slots_of ?s1 (link_addr edge) = ?c @ [?a]"
          by (simp only: slots_of_insert timeline_insert_append)
        have fr: "frame (link_addr edge) s ?s1" by (rule slots_insert_frame)
        then have st1: "step_size ?s1 = step" using Suc.prems(2) by (simp add: frame_def)
        have unf: "createCache_edge rnd s edge t = createCache_edge rnd ?s1 edge (rnd (te + step))"
          using tP r1(1) Fin False r2(1) Suc.prems(2)
          by (subst createCache_edge_unfold) (simp add: te_def)
        show ?thesis
        proof (cases "?P \<le> te + step")
          case True
          with mono have "rnd ?P \<le> rnd (te + step)" by (rule monoD)
          then have "\<not> rnd (te + step) < ?P" by (simp add: rP)
          then have "createCache_edge rnd ?s1 edge (rnd (te + step)) = Some ?s1"
            by (subst createCache_edge_unfold) simp
          moreover have "visibility_cache step edge (?c @ [?a])"
            using inv' True by (intro scan_exit) auto
          ultimately show ?thesis using unf sl fr by simp
        next
          case False
          then have lt: "te + step < ?P" by simp
          from inv' have "?P \<le> te + step \<or>
              ((\<exists>m::nat. te + step = real m * step) \<and> (te + step = 0 \<or> isBlocked edge (te + step)))"
            by (simp only: scan_inv_def)
          with False obtain m' :: nat where m': "te + step = real m' * step" by blast
          have "real m' * step \<le> L" using m' lt PL st by linarith
          with ex have "rnd (real m' * step) = real m' * step" by blast
          then have nxt: "rnd (te + step) = te + step" by (simp only: m')
          have "?P - (te + step) < real n * step"
          proof -
            have "real (Suc n) * step = real n * step + step" by (rule real_Suc_times)
            with Suc.prems(1) ttn tnte show ?thesis by linarith
          qed
          from Suc.IH[OF this st1] inv' sl obtain s' where
            s': "createCache_edge rnd ?s1 edge (te + step) = Some s'"
              "visibility_cache step edge (slots_of s' (link_addr edge))"
              "frame (link_addr edge) ?s1 s'"
            by auto
          with unf nxt frame_trans[OF fr s'(3)] show ?thesis by simp
        qed
      qed
    qed
  qed
qed

lemma scan_inv_start:
  assumes "0 < step"
  shows "scan_inv step edge [] 0"
proof -
  have "(0::real) = real 0 * step" by simp
  then have g: "\<exists>m::nat. (0::real) = real m * step" by blast
  have "\<not> real j * step < 0" for j :: nat
  proof -
    have "0 \<le> real j * step" using assms by simp
    then show ?thesis by (simp only: not_less)
  qed
  with g show ?thesis
    unfolding scan_inv_def by simp
qed

lemma visibility_cache_never_visible:
  assumes "visibility_cache step edge c"
    and "\<forall>j::nat. real j * step < getPeriod edge \<longrightarrow> isBlocked edge (real j * step)"
  shows "c = []"
proof (cases c)
  case Nil
  then show ?thesis .
next
  case (Cons a rest)
  with assms(1) have run: "unblocked_run step edge a"
    by (simp add: visibility_cache_def)
  then obtain m :: nat where m: "t_begin a = real m * step" by (auto simp: unblocked_run_def)
  from run have "t_begin a < getPeriod edge" "t_begin a + real 0 * step \<le> t_end a"
    by (simp_all add: unblocked_run_def)
  moreover from run have "\<forall>i::nat. t_begin a + real i * step \<le> t_end a
      \<longrightarrow> \<not> isBlocked edge (t_begin a + real i * step)"
    unfolding unblocked_run_def by blast
  ultimately have "\<not> isBlocked edge (t_begin a + real 0 * step)" by blast
  then have "\<not> isBlocked edge (real m * step)" using m by simp
  moreover from \<open>t_begin a < getPeriod edge\<close> m have "real m * step < getPeriod edge" by simp
  ultimately show ?thesis using assms(2) by blast
qed

lemma createCache_edges_total:
  assumes st: "0 < step" and mono: "mono rnd"
  shows "step_size s = step \<Longrightarrow> distinct (map link_addr es) \<Longrightarrow>
         \<forall>e\<in>set es. slots_of s (link_addr e) = [] \<Longrightarrow>
         \<forall>e\<in>set es. exact_sampling rnd step (getPeriod e) \<Longrightarrow>
         \<exists>s'. createCache_edges rnd s es = Some s' \<and> step_size s' = step \<and>
              (\<forall>e\<in>set es. visibility_cache step e (slots_of s' (link_addr e))) \<and>
              (\<forall>k. k \<notin> link_addr ` set es \<longrightarrow> slots_of s' k = slots_of s k)"
proof (induction es arbitrary: s)
  case Nil
  then show ?case by simp
next
  case (Cons e es)
  obtain n :: nat where n: "getPeriod e - 0 < real n * step"
    using archimedean_steps[OF st] by blast
  have inv: "scan_inv step e (slots_of s (link_addr e)) 0"
    using Cons.prems(3) by (simp add: scan_inv_start[OF st])
  have xs: "exact_sampling rnd step (getPeriod e)" using Cons.prems(4) by simp
  from createCache_edge_total[OF st mono xs n Cons.prems(1) inv] obtain s1 where
    s1: "createCache_edge rnd s e 0 = Some s1"
      "visibility_cache step e (slots_of s1 (link_addr e))"
      "frame (link_addr e) s s1"
    by blast
  have st1: "step_size s1 = step" using s1(3) Cons.prems(1) by (simp add: frame_def)
  have d: "distinct (map link_addr es)" and ne: "link_addr e \<notin> link_addr ` set es"
    using Cons.prems(2) by simp_all
  have "\<forall>e'\<in>set es. slots_of s1 (link_addr e') = []"
  proof
    fix e' assume e': "e' \<in> set es"
    with ne have "link_addr e' \<noteq> link_addr e" by (metis image_eqI)
    with s1(3) have "slots_of s1 (link_addr e') = slots_of s (link_addr e')"
      by (simp add: frame_def)
    with Cons.prems(3) e' show "slots_of s1 (link_addr e') = []" by simp
  qed
  moreover have "\<forall>e'\<in>set es. exact_sampling rnd step (getPeriod e')" using Cons.prems(4) by simp
  ultimately obtain s' where
    s': "createCache_edges rnd s1 es = Some s'" "step_size s' = step"
      "\<forall>e\<in>set es. visibility_cache step e (slots_of s' (link_addr e))"
      "\<forall>k. k \<notin> link_addr ` set es \<longrightarrow> slots_of s' k = slots_of s1 k"
    using Cons.IH[OF st1 d] by blast
  have "slots_of s' (link_addr e) = slots_of s1 (link_addr e)"
    using s'(4) ne by simp
  with s1(2) have "visibility_cache step e (slots_of s' (link_addr e))" by simp
  moreover have "slots_of s' k = slots_of s k" if "k \<notin> link_addr ` set (e # es)" for k
  proof -
    from that have "k \<noteq> link_addr e" "k \<notin> link_addr ` set es" by auto
    with s'(4) s1(3) show ?thesis by (simp add: frame_def)
  qed
  ultimately show ?case
    using s1(1) s' by auto
qed

text \<open>
  Claim C6, as amended. Let the step be positive, the links at distinct addresses and
  without a cache yet, the rounding monotone, and the sampling of every link exact
  (\<open>exact_sampling\<close>: the period and the sample times up to two periods are floats,
  as they are for a step of 1 and periods below \<open>2^23\<close>). Then
  \<open>createCache\<close> returns, and the cache it has built for each link is a
  \<open>visibility_cache\<close>: its intervals are in the order of their start times and
  separated (each ends before the next begins); each runs from the first to the last sample
  of a maximal run of unblocked samples: it begins at an unblocked sample within the
  period, holds only unblocked samples, the sample before it is blocked unless it begins
  at 0, and the sample after its end is blocked unless its end is the period boundary, to
  which it is clamped; every unblocked sample within the period lies in the closed
  interval \<open>[t_begin, t_end]\<close> of an entry. A link with no unblocked sample within
  one period gets an empty cache.
\<close>

theorem createCache_builds_caches:
  assumes "0 < step_size s" and "distinct (map link_addr (instance_edges s))"
    and "\<forall>e\<in>set (instance_edges s). slots_of s (link_addr e) = []"
    and "mono rnd"
    and "\<forall>e\<in>set (instance_edges s). exact_sampling rnd (step_size s) (getPeriod e)"
  shows "\<exists>s'. createCache rnd s = Some s' \<and>
           (\<forall>e\<in>set (instance_edges s).
              visibility_cache (step_size s) e (slots_of s' (link_addr e)) \<and>
              ((\<forall>j::nat. real j * step_size s < getPeriod e \<longrightarrow> isBlocked e (real j * step_size s))
                 \<longrightarrow> slots_of s' (link_addr e) = []))"
proof -
  from createCache_edges_total[OF assms(1) assms(4) refl assms(2) assms(3) assms(5)] obtain s' where
    s': "createCache_edges rnd s (instance_edges s) = Some s'"
      "\<forall>e\<in>set (instance_edges s). visibility_cache (step_size s) e (slots_of s' (link_addr e))"
    by blast
  then show ?thesis
    using visibility_cache_never_visible by (fastforce simp: createCache_def)
qed

lemma exact_sampling_binary32:
  assumes "0 \<le> n" "2 * n + 1 \<le> 16777216"
  shows "exact_sampling binary32 1 (of_int n)"
proof -
  have a: "binary32 (of_int n) = of_int n" using assms by (intro binary32_of_int) simp
  have "binary32 (of_int (n + n)) = of_int (n + n)" using assms by (intro binary32_of_int) simp
  then have b: "binary32 (of_int n + of_int n) = of_int (2 * n)" by simp
  have "binary32 (real m * 1) = real m * 1" if "real m * 1 \<le> of_int (2 * n) + 1" for m :: nat
  proof -
    from that have "real m \<le> of_int (2 * n + 1)" by simp
    also have "\<dots> \<le> 16777216" using assms(2) by linarith
    finally show ?thesis using binary32_of_nat[of m] by simp
  qed
  with a b show ?thesis by (simp add: exact_sampling_def)
qed

lemma fresh_solver_cache:
  "createCache binary32 fresh_solver
     = Some (fresh_solver\<lparr>edge_time_slots := [106 \<mapsto> [\<lparr>t_begin = 1, t_end = 3\<rparr>]]\<rparr>)"
proof -
  let ?s1 = "fresh_solver\<lparr>edge_time_slots := [106 \<mapsto> [\<lparr>t_begin = 1, t_end = 3\<rparr>]]\<rparr>"
  have d: "link_addr link_d = 106" "getPeriod link_d = 3" "isBlocked link_d t = (t < 1)" for t
    by (simp_all add: link_d_def)
  have e: "link_addr link_e = 107" "getPeriod link_e = 2" "isBlocked link_e t = True" for t
    by (simp_all add: link_e_def)
  have f: "step_size fresh_solver = 1" "edge_time_slots fresh_solver = Map.empty"
    "instance_edges fresh_solver = [link_d, link_e]" "step_size ?s1 = 1"
    by (simp_all add: fresh_solver_def)
  note b = binary32_numeral binary32_zero_one
  have n1: "findNextVisiblity binary32 fresh_solver link_d 0 = Some (Fin 1)"
    by (simp add: findNextVisiblity_def findNextVisiblity_loop.simps d f b)
  have l1: "findLastVisible binary32 fresh_solver link_d 1 = Some PInf"
    by (simp add: findLastVisible_def findLastVisible_loop.simps d f b)
  have i1: "slots_insert fresh_solver 106 \<lparr>t_begin = 1, t_end = 3\<rparr> = ?s1"
    by (simp add: slots_insert_def slots_index_def f)
  have c1: "createCache_edge binary32 fresh_solver link_d 0 = Some ?s1"
    by (subst createCache_edge_unfold, simp add: d n1 l1 clamp_end_def i1 f b,
        subst createCache_edge_unfold, simp add: d)
  have n2: "findNextVisiblity binary32 ?s1 link_e 0 = Some PInf"
    by (simp add: findNextVisiblity_def findNextVisiblity_loop.simps e f b)
  have c2: "createCache_edge binary32 ?s1 link_e 0 = Some ?s1"
    by (subst createCache_edge_unfold) (simp add: e n2)
  show ?thesis
    by (simp add: createCache_def f c1 c2)
qed

theorem createCache_builds_caches_witness:
  "0 < step_size fresh_solver \<and> distinct (map link_addr (instance_edges fresh_solver)) \<and>
   list_all (\<lambda>e. slots_of fresh_solver (link_addr e) = []) (instance_edges fresh_solver) \<and>
   mono binary32 \<and>
   list_all (\<lambda>e. exact_sampling binary32 (step_size fresh_solver) (getPeriod e))
     (instance_edges fresh_solver) \<and>
   createCache binary32 fresh_solver
     = Some (fresh_solver\<lparr>edge_time_slots := [106 \<mapsto> [\<lparr>t_begin = 1, t_end = 3\<rparr>]]\<rparr>) \<and>
   visibility_cache 1 link_d [\<lparr>t_begin = 1, t_end = 3\<rparr>] \<and>
   visibility_cache 1 link_e []"
proof -
  let ?s1 = "fresh_solver\<lparr>edge_time_slots := [106 \<mapsto> [\<lparr>t_begin = 1, t_end = 3\<rparr>]]\<rparr>"
  have f: "step_size fresh_solver = 1" "instance_edges fresh_solver = [link_d, link_e]"
    by (simp_all add: fresh_solver_def)
  have a: "link_addr link_d = 106" "link_addr link_e = 107"
    "getPeriod link_d = 3" "getPeriod link_e = 2"
    by (simp_all add: link_d_def link_e_def)
  have h1: "0 < step_size fresh_solver" by (simp add: f)
  have h2: "distinct (map link_addr (instance_edges fresh_solver))" by (simp add: f a)
  have h3: "\<forall>e\<in>set (instance_edges fresh_solver). slots_of fresh_solver (link_addr e) = []"
    by (simp add: f a slots_of_def fresh_solver_def)
  have h5: "\<forall>e\<in>set (instance_edges fresh_solver).
              exact_sampling binary32 (step_size fresh_solver) (getPeriod e)"
    using exact_sampling_binary32[of 3] exact_sampling_binary32[of 2] by (simp add: f a)
  have sl: "slots_of ?s1 106 = [\<lparr>t_begin = 1, t_end = 3\<rparr>]" "slots_of ?s1 107 = []"
    by (simp_all add: slots_of_def)
  from createCache_builds_caches[OF h1 h2 h3 mono_binary32 h5] fresh_solver_cache
  have "visibility_cache 1 link_d [\<lparr>t_begin = 1, t_end = 3\<rparr>] \<and> visibility_cache 1 link_e []"
    by (simp add: f a sl)
  with h1 h2 h3 h5 fresh_solver_cache mono_binary32 show ?thesis
    by (simp add: list_all_iff)
qed

lemma findNextVisiblity_loop_stalls:
  assumes y: "findNextVisiblity_loop rnd step edge t0 t = Some y"
    and bl: "\<forall>u. isBlocked edge u"
    and tS: "t \<in> S"
    and cl: "\<forall>u\<in>S. u \<le> rnd (t0 + getPeriod edge) \<and> rnd (u + step) \<in> S"
  shows False
proof -
  have "(\<forall>u. isBlocked edge u) \<longrightarrow> t \<in> S \<longrightarrow>
        (\<forall>u\<in>S. u \<le> rnd (t0 + getPeriod edge) \<and> rnd (u + step) \<in> S) \<longrightarrow> False"
  proof (rule findNextVisiblity_loop.raw_induct[where P = "\<lambda>rnd step edge t0 t y.
          (\<forall>u. isBlocked edge u) \<longrightarrow> t \<in> S \<longrightarrow>
          (\<forall>u\<in>S. u \<le> rnd (t0 + getPeriod edge) \<and> rnd (u + step) \<in> S) \<longrightarrow> False",
          OF _ y])
    fix loop :: "(real \<Rightarrow> real) \<Rightarrow> real \<Rightarrow> 'a link \<Rightarrow> real \<Rightarrow> real \<Rightarrow> flt option"
    fix rnd step edge t0 t y
    assume IH: "\<And>rnd step edge t0 t y.
      loop rnd step edge t0 t = Some y \<Longrightarrow>
      (\<forall>u. isBlocked edge u) \<longrightarrow> t \<in> S \<longrightarrow>
      (\<forall>u\<in>S. u \<le> rnd (t0 + getPeriod edge) \<and> rnd (u + step) \<in> S) \<longrightarrow> False"
    assume body: "(if t \<le> rnd (t0 + getPeriod edge)
      then if \<not> isBlocked edge t then Some (Fin t)
           else loop rnd step edge t0 (rnd (t + step))
      else Some PInf) = Some y"
    show "(\<forall>u. isBlocked edge u) \<longrightarrow> t \<in> S \<longrightarrow>
      (\<forall>u\<in>S. u \<le> rnd (t0 + getPeriod edge) \<and> rnd (u + step) \<in> S) \<longrightarrow> False"
    proof (intro impI)
      assume bl: "\<forall>u. isBlocked edge u" and tS: "t \<in> S"
        and cl: "\<forall>u\<in>S. u \<le> rnd (t0 + getPeriod edge) \<and> rnd (u + step) \<in> S"
      from cl tS have "t \<le> rnd (t0 + getPeriod edge)" "rnd (t + step) \<in> S" by blast+
      with body bl have "loop rnd step edge t0 (rnd (t + step)) = Some y" by simp
      from IH[OF this] bl cl \<open>rnd (t + step) \<in> S\<close> show False by blast
    qed
  qed
  with bl tS cl show False by blast
qed

lemma link_c_cache:
  "createCache binary32 link_c_fresh_solver
     = Some (link_c_fresh_solver\<lparr>edge_time_slots :=
               [102 \<mapsto> [\<lparr>t_begin = 1, t_end = 1\<rparr>, \<lparr>t_begin = 4, t_end = 5\<rparr>]]\<rparr>)"
proof -
  let ?s0 = "link_c_fresh_solver"
  let ?s1 = "?s0\<lparr>edge_time_slots := [102 \<mapsto> [\<lparr>t_begin = 1, t_end = 1\<rparr>]]\<rparr>"
  let ?s2 = "?s0\<lparr>edge_time_slots :=
               [102 \<mapsto> [\<lparr>t_begin = 1, t_end = 1\<rparr>, \<lparr>t_begin = 4, t_end = 5\<rparr>]]\<rparr>"
  have c: "link_addr link_c = 102" "getPeriod link_c = 10"
    "isBlocked link_c t = (\<not> (1 \<le> t \<and> t < 2 \<or> 4 \<le> t \<and> t < 6))" for t
    by (simp_all add: link_c_def)
  have f: "step_size ?s0 = 1" "edge_time_slots ?s0 = Map.empty"
    "instance_edges ?s0 = [link_c]" "step_size ?s1 = 1" "step_size ?s2 = 1"
    by (simp_all add: link_c_fresh_solver_def)
  note b = binary32_numeral binary32_zero_one
  have n1: "findNextVisiblity binary32 ?s0 link_c 0 = Some (Fin 1)"
    by (simp add: findNextVisiblity_def findNextVisiblity_loop.simps c f b)
  have l1: "findLastVisible binary32 ?s0 link_c 1 = Some (Fin 1)"
    by (simp add: findLastVisible_def findLastVisible_loop.simps c f b)
  have i1: "slots_insert ?s0 102 \<lparr>t_begin = 1, t_end = 1\<rparr> = ?s1"
    by (simp add: slots_insert_def slots_index_def f)
  have n2: "findNextVisiblity binary32 ?s1 link_c 2 = Some (Fin 4)"
    by (simp add: findNextVisiblity_def findNextVisiblity_loop.simps c f b)
  have l2: "findLastVisible binary32 ?s1 link_c 4 = Some (Fin 5)"
    by (simp add: findLastVisible_def findLastVisible_loop.simps c f b)
  have i2: "slots_insert ?s1 102 \<lparr>t_begin = 4, t_end = 5\<rparr> = ?s2"
    by (simp add: slots_insert_def slots_index_def f)
  have n3: "findNextVisiblity binary32 ?s2 link_c 6 = Some PInf"
    by (simp add: findNextVisiblity_def findNextVisiblity_loop.simps c f b)
  have c3: "createCache_edge binary32 ?s2 link_c 6 = Some ?s2"
    by (subst createCache_edge_unfold) (simp add: c n3)
  have c2: "createCache_edge binary32 ?s1 link_c 2 = Some ?s2"
    by (subst createCache_edge_unfold) (simp add: c n2 l2 clamp_end_def i2 f b c3)
  have c1: "createCache_edge binary32 ?s0 link_c 0 = Some ?s2"
    by (subst createCache_edge_unfold) (simp add: c n1 l1 clamp_end_def i1 f b c2)
  show ?thesis
    by (simp add: createCache_def f c1)
qed

lemma binary32_steps:
  "binary32 (11744051 / 16777216) = 11744051 / 16777216"
  "binary32 (11744051 / 8388608) = 11744051 / 8388608"
  "binary32 (35232153 / 16777216) = 4404019 / 2097152"
  "binary32 (28521267 / 8388608) = 7130317 / 2097152"
  "binary32 (23488101 / 16777216) = 5872025 / 4194304"
  "binary32 (35232151 / 16777216) = 4404019 / 2097152"
proof -
  show "binary32 (11744051 / 16777216) = 11744051 / 16777216"
    using binary32_representable[of 11744051 "- 24"] by simp
  show "binary32 (11744051 / 8388608) = 11744051 / 8388608"
    using binary32_representable[of 11744051 "- 23"] by simp
  show "binary32 (35232153 / 16777216) = 4404019 / 2097152"
    by (subst binary32_binade[of 1]) (simp_all add: round_half_even_def)
  show "binary32 (28521267 / 8388608) = 7130317 / 2097152"
    by (subst binary32_binade[of 1]) (simp_all add: round_half_even_def)
  show "binary32 (23488101 / 16777216) = 5872025 / 4194304"
    by (subst binary32_binade[of 0]) (simp_all add: round_half_even_def)
  show "binary32 (35232151 / 16777216) = 4404019 / 2097152"
    by (subst binary32_binade[of 1]) (simp_all add: round_half_even_def)
qed

lemma link_i_cache:
  "createCache binary32 link_i_solver
     = Some (link_i_solver\<lparr>edge_time_slots :=
               [109 \<mapsto> [\<lparr>t_begin = 11744051 / 8388608, t_end = 5872025 / 4194304\<rparr>]]\<rparr>)"
proof -
  let ?s0 = "link_i_solver"
  let ?s1 = "?s0\<lparr>edge_time_slots :=
               [109 \<mapsto> [\<lparr>t_begin = 11744051 / 8388608, t_end = 5872025 / 4194304\<rparr>]]\<rparr>"
  have c: "link_addr link_i = 109" "getPeriod link_i = 2"
    "isBlocked link_i t = (t \<noteq> 11744051 / 8388608)" for t
    by (simp_all add: link_i_def)
  have f: "step_size ?s0 = 11744051 / 16777216" "edge_time_slots ?s0 = Map.empty"
    "instance_edges ?s0 = [link_i]" "step_size ?s1 = 11744051 / 16777216"
    by (simp_all add: link_i_solver_def)
  note b = binary32_numeral binary32_zero_one binary32_steps
  have n1: "findNextVisiblity binary32 ?s0 link_i 0 = Some (Fin (11744051 / 8388608))"
    by (simp add: findNextVisiblity_def findNextVisiblity_loop.simps c f b)
  have l1: "findLastVisible binary32 ?s0 link_i (11744051 / 8388608) = Some (Fin (5872025 / 4194304))"
    by (simp add: findLastVisible_def findLastVisible_loop.simps c f b)
  have i1: "slots_insert ?s0 109 \<lparr>t_begin = 11744051 / 8388608, t_end = 5872025 / 4194304\<rparr> = ?s1"
    by (simp add: slots_insert_def slots_index_def f)
  have c2: "createCache_edge binary32 ?s1 link_i (4404019 / 2097152) = Some ?s1"
    by (subst createCache_edge_unfold) (simp add: c)
  have c1: "createCache_edge binary32 ?s0 link_i 0 = Some ?s1"
    by (subst createCache_edge_unfold) (simp add: c n1 l1 clamp_end_def i1 f b c2)
  show ?thesis
    by (simp add: createCache_def f c1)
qed

lemma link_h_stalls: "createCache binary32 link_h_solver = None"
proof -
  have h: "getPeriod link_h = 33554432" "isBlocked link_h t" for t
    by (simp_all add: link_h_def)
  have f: "step_size link_h_solver = 1" "instance_edges link_h_solver = [link_h]"
    by (simp_all add: link_h_solver_def)
  define S :: "real set" where "S = {u. \<exists>k::nat. u = real k \<and> k \<le> 16777216}"
  have bound: "binary32 (0 + getPeriod link_h) = 33554432"
    using binary32_representable[of 1 25] by (simp add: h)
  have top: "binary32 16777217 = 16777216"
    by (subst binary32_binade[of 24]) (simp_all add: round_half_even_def)
  have cl: "\<forall>u\<in>S. u \<le> binary32 (0 + getPeriod link_h) \<and> binary32 (u + 1) \<in> S"
  proof
    fix u assume "u \<in> S"
    then obtain k :: nat where k: "u = real k" "k \<le> 16777216" by (auto simp: S_def)
    have "binary32 (u + 1) \<in> S"
    proof (cases "k = 16777216")
      case True
      with k top show ?thesis by (auto simp: S_def intro!: exI[of _ "16777216::nat"])
    next
      case False
      with k have "real (Suc k) \<le> 16777216" by simp
      from binary32_of_nat[OF this] have "binary32 (u + 1) = real (Suc k)"
        using k by (simp add: add.commute)
      moreover have "Suc k \<le> 16777216" using False k by simp
      ultimately show ?thesis unfolding S_def by blast
    qed
    moreover have "u \<le> binary32 (0 + getPeriod link_h)" using k bound by simp
    ultimately show "u \<le> binary32 (0 + getPeriod link_h) \<and> binary32 (u + 1) \<in> S"
      by blast
  qed
  have "0 \<in> S" by (auto simp: S_def intro!: exI[of _ "0::nat"])
  have "findNextVisiblity_loop binary32 1 link_h 0 0 = None"
  proof (rule ccontr)
    assume "findNextVisiblity_loop binary32 1 link_h 0 0 \<noteq> None"
    then obtain y where "findNextVisiblity_loop binary32 1 link_h 0 0 = Some y" by auto
    from findNextVisiblity_loop_stalls[OF this _ \<open>0 \<in> S\<close> cl] h(2) show False by blast
  qed
  then have "findNextVisiblity binary32 link_h_solver link_h 0 = None"
    by (simp add: findNextVisiblity_def f)
  then have "createCache_edge binary32 link_h_solver link_h 0 = None"
    by (subst createCache_edge_unfold) (simp add: h)
  then show ?thesis by (simp add: createCache_def f)
qed

text \<open>
  Claim C6 as stated fails in three ways. The intervals end at the last unblocked sample,
  so that read as the half-open intervals \<open>[t_begin, t_end)\<close> of the specification
  they do not cover the runs: for a link of period 10 that is unblocked on
  \<open>[1, 2)\<close> and \<open>[4, 6)\<close>, sampled in steps of 1, the cache is
  \<open>[1, 1), [4, 5)\<close>, which holds neither the unblocked sample 1 nor the unblocked
  sample 5. The sample times are sums of floats: with the step \<open>0.7f\<close>, which is
  \<open>11744051 / 2^24\<close>, and a link of period 2 that is unblocked at the third sample
  only, stepping forth and back from that sample does not return to it, and the interval of
  the cache ends before it begins. And for a link of period \<open>2^25\<close> that is
  blocked at every time, sampled in steps of 1, the time of the search stays at
  \<open>2^24\<close>, where adding 1 is rounded away, and \<open>createCache\<close> does
  not return.
\<close>

theorem createCache_misses_samples:
  "createCache binary32 link_c_fresh_solver
     = Some (link_c_fresh_solver\<lparr>edge_time_slots :=
               [102 \<mapsto> [\<lparr>t_begin = 1, t_end = 1\<rparr>, \<lparr>t_begin = 4, t_end = 5\<rparr>]]\<rparr>) \<and>
   \<not> isBlocked link_c 1 \<and> \<not> isBlocked link_c 5 \<and> 5 < getPeriod link_c \<and>
   \<not> covered_half_open [\<lparr>t_begin = 1, t_end = 1\<rparr>, \<lparr>t_begin = 4, t_end = 5\<rparr>] 1 \<and>
   \<not> covered_half_open [\<lparr>t_begin = 1, t_end = 1\<rparr>, \<lparr>t_begin = 4, t_end = 5\<rparr>] 5 \<and>
   createCache binary32 link_i_solver
     = Some (link_i_solver\<lparr>edge_time_slots :=
               [109 \<mapsto> [\<lparr>t_begin = 11744051 / 8388608, t_end = 5872025 / 4194304\<rparr>]]\<rparr>) \<and>
   (5872025 / 4194304 :: real) < 11744051 / 8388608 \<and>
   (\<forall>t. isBlocked link_h t) \<and> createCache binary32 link_h_solver = None"
  using link_c_cache link_i_cache link_h_stalls
  by (simp add: link_c_def link_h_def covered_half_open_def)

end
